theory Spec2Isabelle
  imports Complex_Main "HOL-Library.Sublist" "HOL-Library.Multiset"
begin

section \<open>Credentials and the key prioritizer\<close>

text \<open>
  Model families and services are string-literal unions in \<^verbatim>\<open>shared/models.ts\<close>;
  they are kept as strings. Timestamps and durations are JavaScript numbers holding
  integral milliseconds and are modelled as \<^typ>\<open>int\<close>. Every clock read
  (\<^verbatim>\<open>Date.now()\<close>) made during one call is the single argument \<open>now\<close>.
\<close>

type_synonym ModelFamily = string

text \<open>The interface \<^verbatim>\<open>Key\<close> of \<^verbatim>\<open>shared/key-management/index.ts\<close>.\<close>

record Key =
  key :: string
  service :: string
  modelFamilies :: "ModelFamily list"
  isDisabled :: bool
  isRevoked :: bool
  promptCount :: int
  lastUsed :: int
  lastChecked :: int
  hash :: string
  rateLimitedAt :: int
  rateLimitedUntil :: int

text \<open>\<^verbatim>\<open>OpenAIKey extends Key\<close> (the per-family token counters are left out).\<close>

record OpenAIKey = Key +
  organizationId :: "string option"
  isTrial :: bool
  isOverQuota :: bool
  rateLimitRequestsReset :: int
  rateLimitTokensReset :: int
  modelIds :: "string list"

datatype AwsLoggingStatus = LoggingUnknown | LoggingDisabled | LoggingEnabled

text \<open>\<^verbatim>\<open>AwsBedrockKey extends Key\<close>; its \<^verbatim>\<open>modelIds\<close> field is named
  \<open>awsModelIds\<close> here because record fields share one name space.\<close>

record AwsBedrockKey = Key +
  awsLoggingStatus :: AwsLoggingStatus
  awsModelIds :: "string list"
  inferenceProfileIds :: "string list"

subsection \<open>\<^verbatim>\<open>Array.prototype.sort\<close> with a comparator\<close>

text \<open>
  The sort of ECMAScript is stable. For a consistent comparator its result is the one
  stable sorted arrangement of the input, which a stable insertion sort computes:
  an element goes in front of the first element it does not compare greater than.
\<close>

fun insert_by :: "('a \<Rightarrow> 'a \<Rightarrow> int) \<Rightarrow> 'a \<Rightarrow> 'a list \<Rightarrow> 'a list" where
  "insert_by cmp x [] = [x]"
| "insert_by cmp x (y # ys) =
     (if cmp x y \<le> 0 then x # y # ys else y # insert_by cmp x ys)"

definition array_sort :: "('a \<Rightarrow> 'a \<Rightarrow> int) \<Rightarrow> 'a list \<Rightarrow> 'a list" where
  "array_sort cmp xs = foldr (insert_by cmp) xs []"

text \<open>\<^verbatim>\<open>Math.min(...xs)\<close> on a non-empty array (on the empty one it is
  \<^verbatim>\<open>Infinity\<close>, which no caller below reaches).\<close>

fun math_min :: "int list \<Rightarrow> int" where
  "math_min [x] = x"
| "math_min (x # y # ys) = min x (math_min (y # ys))"

subsection \<open>\<^verbatim>\<open>prioritizeKeys\<close>\<close>

text \<open>The comparator closure passed to \<^verbatim>\<open>keys.sort\<close>; \<open>customComparator\<close> is
  the optional second argument.\<close>

definition keyComparator ::
  "int \<Rightarrow> ('a Key_scheme \<Rightarrow> 'a Key_scheme \<Rightarrow> int) option
     \<Rightarrow> 'a Key_scheme \<Rightarrow> 'a Key_scheme \<Rightarrow> int" where
  "keyComparator now customComparator a b =
     (let aRateLimited = now < rateLimitedUntil a;
          bRateLimited = now < rateLimitedUntil b
      in if aRateLimited \<and> \<not> bRateLimited then 1
         else if \<not> aRateLimited \<and> bRateLimited then - 1
         else if aRateLimited \<and> bRateLimited
           then rateLimitedUntil a - rateLimitedUntil b
         else (case customComparator of
                 Some c \<Rightarrow>
                   (let result = c a b
                    in if result \<noteq> 0 then result else lastUsed a - lastUsed b)
               | None \<Rightarrow> lastUsed a - lastUsed b))"

definition prioritizeKeys ::
  "int \<Rightarrow> ('a Key_scheme \<Rightarrow> 'a Key_scheme \<Rightarrow> int) option
     \<Rightarrow> 'a Key_scheme list \<Rightarrow> 'a Key_scheme list" where
  "prioritizeKeys now customComparator keys =
     array_sort (keyComparator now customComparator) keys"

subsection \<open>Lockout periods\<close>

text \<open>\<^verbatim>\<open>createGenericGetLockoutPeriod(getKeys)\<close>, applied to the key list the
  getter returns. The optional \<open>family\<close> is \<open>None\<close> when the caller passes none.\<close>

definition createGenericGetLockoutPeriod ::
  "'a Key_scheme list \<Rightarrow> int \<Rightarrow> ModelFamily option \<Rightarrow> int" where
  "createGenericGetLockoutPeriod keys now family =
     (let activeKeys =
            filter (\<lambda>k. \<not> isDisabled k \<and>
                     (case family of None \<Rightarrow> True
                      | Some f \<Rightarrow> f \<in> set (modelFamilies k))) keys
      in if length activeKeys = 0 then 0
         else
           let rateLimitedKeys = filter (\<lambda>k. now < rateLimitedUntil k) activeKeys;
               anyNotRateLimited = length rateLimitedKeys < length activeKeys
           in if anyNotRateLimited then 0
              else math_min (map (\<lambda>k. rateLimitedUntil k - now) activeKeys))"

text \<open>\<^verbatim>\<open>OpenAIKeyProvider.getLockoutPeriod\<close>: the window of a key ends at
  \<^verbatim>\<open>rateLimitedAt + Math.min(20000, resetTime)\<close>.\<close>

definition openaiWindowEnd :: "'a OpenAIKey_scheme \<Rightarrow> int" where
  "openaiWindowEnd k =
     (let resetTime = max (rateLimitRequestsReset k) (rateLimitTokensReset k)
      in rateLimitedAt k + min 20000 resetTime)"

definition openaiGetLockoutPeriod ::
  "'a OpenAIKey_scheme list \<Rightarrow> int \<Rightarrow> ModelFamily \<Rightarrow> int" where
  "openaiGetLockoutPeriod keys now family =
     (let activeKeys =
            filter (\<lambda>k. \<not> isDisabled k \<and> family \<in> set (modelFamilies k)) keys
      in if length activeKeys = 0 then 0
         else
           let rateLimitedKeys = length (filter (\<lambda>k. now < openaiWindowEnd k) activeKeys);
               anyNotRateLimited = rateLimitedKeys < length activeKeys
           in if anyNotRateLimited then 0
              else math_min (map (\<lambda>k. openaiWindowEnd k - now) activeKeys))"


section \<open>Model names and model families\<close>

text \<open>
  Strings are byte lists; the matchers below are the regular expressions of
  \<^verbatim>\<open>shared/models.ts\<close> written out by hand for ASCII model names.
\<close>

text \<open>\<^verbatim>\<open>s.includes(p)\<close>\<close>

fun str_includes :: "string \<Rightarrow> string \<Rightarrow> bool" where
  "str_includes [] p = (p = [])"
| "str_includes (c # s) p = (prefix p (c # s) \<or> str_includes s p)"

definition isDigit :: "char \<Rightarrow> bool" where
  "isDigit c = (c \<in> set ''0123456789'')"


text \<open>The characters \<^verbatim>\<open>.\<close> does not match (the ASCII line terminators).\<close>

definition isLineTerminator :: "char \<Rightarrow> bool" where
  "isLineTerminator c = (c = CHR 0x0A \<or> c = CHR 0x0D)"

text \<open>A match of \<open>^p\<close> followed by a remainder that satisfies \<open>rest\<close>.\<close>

definition withPrefix :: "string \<Rightarrow> (string \<Rightarrow> bool) \<Rightarrow> string \<Rightarrow> bool" where
  "withPrefix p rest s = (prefix p s \<and> rest (drop (length p) s))"

text \<open>\<^verbatim>\<open>\d{n}$\<close>\<close>

definition digitsN :: "nat \<Rightarrow> string \<Rightarrow> bool" where
  "digitsN n s = (length s = n \<and> list_all isDigit s)"

text \<open>\<^verbatim>\<open>(-\d{4}-\d{2}-\d{2})?$\<close>\<close>

definition optDate :: "string \<Rightarrow> bool" where
  "optDate s =
     (s = [] \<or>
      (length s = 11 \<and> take 1 s = ''-'' \<and> digitsN 4 (take 4 (drop 1 s)) \<and>
       take 1 (drop 5 s) = ''-'' \<and> digitsN 2 (take 2 (drop 6 s)) \<and>
       take 1 (drop 8 s) = ''-'' \<and> digitsN 2 (drop 9 s)))"

text \<open>\<^verbatim>\<open>-vision(-preview)?$\<close>\<close>

definition visionTail :: "string \<Rightarrow> bool" where
  "visionTail s = (s = ''-vision'' \<or> s = ''-vision-preview'')"

text \<open>\<^verbatim>\<open>OPENAI_MODEL_FAMILY_MAP\<close>, in the order of its entries.\<close>

definition OPENAI_MODEL_FAMILY_MAP :: "((string \<Rightarrow> bool) \<times> ModelFamily) list" where
  "OPENAI_MODEL_FAMILY_MAP =
     [(withPrefix ''gpt-4o'' optDate, ''gpt4o''),
      (prefix ''chatgpt-4o'', ''gpt4o''),
      (withPrefix ''gpt-4o-mini'' optDate, ''turbo''),
      (withPrefix ''gpt-4-turbo'' optDate, ''gpt4-turbo''),
      (\<lambda>m. m = ''gpt-4-turbo'' \<or> m = ''gpt-4-turbo-preview'', ''gpt4-turbo''),
      (\<lambda>m. m = ''gpt-4-0125'' \<or> m = ''gpt-4-1106'' \<or> m = ''gpt-4-0125-preview''
            \<or> m = ''gpt-4-1106-preview'', ''gpt4-turbo''),
      (withPrefix ''gpt-4''
         (\<lambda>r. visionTail r \<or>
               (take 1 r = ''-'' \<and> digitsN 4 (take 4 (drop 1 r)) \<and> visionTail (drop 5 r))),
       ''gpt4-turbo''),
      (withPrefix ''gpt-4-32k-'' (digitsN 4), ''gpt4-32k''),
      (\<lambda>m. m = ''gpt-4-32k'', ''gpt4-32k''),
      (withPrefix ''gpt-4-'' (digitsN 4), ''gpt4''),
      (\<lambda>m. m = ''gpt-4'', ''gpt4''),
      (withPrefix ''gpt-3''
         (\<lambda>r. r \<noteq> [] \<and> \<not> isLineTerminator (hd r) \<and> prefix ''5-turbo'' (tl r)),
       ''turbo''),
      (\<lambda>m. m = ''text-embedding-ada-002'', ''turbo''),
      (withPrefix ''dall-e-'' (digitsN 1), ''dall-e''),
      (withPrefix ''o1-mini'' optDate, ''o1-mini''),
      (withPrefix ''o1'' (\<lambda>r. optDate r \<or> withPrefix ''-preview'' optDate r), ''o1'')]"

text \<open>The loop of \<^verbatim>\<open>getOpenAIModelFamily\<close>: the first entry that matches wins.\<close>

fun firstMatch :: "((string \<Rightarrow> bool) \<times> ModelFamily) list \<Rightarrow> string \<Rightarrow> ModelFamily \<Rightarrow> ModelFamily" where
  "firstMatch [] model defaultFamily = defaultFamily"
| "firstMatch ((regex, family) # rest) model defaultFamily =
     (if regex model then family else firstMatch rest model defaultFamily)"

definition getOpenAIModelFamily :: "string \<Rightarrow> ModelFamily" where
  "getOpenAIModelFamily model = firstMatch OPENAI_MODEL_FAMILY_MAP model ''gpt4''"









section \<open>Key providers: \<^verbatim>\<open>throttle\<close> and \<^verbatim>\<open>get\<close>\<close>

datatype provider_error = PaymentRequiredError | TypeError

text \<open>\<^verbatim>\<open>const key = this.keys.find((k) => k.hash === hash)!\<close> followed by
  assignments to \<^verbatim>\<open>key\<close>: the first pool entry with the hash is rewritten. When
  no entry has the hash the assignment to \<^verbatim>\<open>undefined\<close> throws.\<close>

fun update_first :: "('k \<Rightarrow> bool) \<Rightarrow> ('k \<Rightarrow> 'k) \<Rightarrow> 'k list \<Rightarrow> 'k list option" where
  "update_first P f [] = None"
| "update_first P f (k # ks) =
     (if P k then Some (f k # ks) else map_option ((#) k) (update_first P f ks))"

definition OPENAI_KEY_REUSE_DELAY :: int where
  "OPENAI_KEY_REUSE_DELAY = 1000"


text \<open>\<^verbatim>\<open>OpenAIKeyProvider.throttle\<close>\<close>

definition openaiThrottleKey :: "int \<Rightarrow> 'a OpenAIKey_scheme \<Rightarrow> 'a OpenAIKey_scheme" where
  "openaiThrottleKey now k =
     (let currentRateLimit =
            max (rateLimitRequestsReset k) (rateLimitTokensReset k) + rateLimitedAt k;
          nextRateLimit = now + OPENAI_KEY_REUSE_DELAY
      in if currentRateLimit > nextRateLimit then k
         else k\<lparr>rateLimitedAt := now,
                rateLimitRequestsReset := OPENAI_KEY_REUSE_DELAY,
                rateLimitedUntil := now + OPENAI_KEY_REUSE_DELAY\<rparr>)"

definition openaiThrottle ::
  "int \<Rightarrow> string \<Rightarrow> 'a OpenAIKey_scheme list \<Rightarrow> 'a OpenAIKey_scheme list option" where
  "openaiThrottle now h keys = update_first (\<lambda>k. hash k = h) (openaiThrottleKey now) keys"



text \<open>
  \<^verbatim>\<open>prioritizeKeys\<close> as \<^verbatim>\<open>get\<close> calls it: the array holds references to the
  pool's objects. A reference is the pool index paired with the object it points to; the
  comparator reads the object.
\<close>

definition prioritizeRefs ::
  "int \<Rightarrow> ('a Key_scheme \<Rightarrow> 'a Key_scheme \<Rightarrow> int) option
     \<Rightarrow> (nat \<times> 'a Key_scheme) list \<Rightarrow> (nat \<times> 'a Key_scheme) list" where
  "prioritizeRefs now customComparator refs =
     array_sort (\<lambda>a b. keyComparator now customComparator (snd a) (snd b)) refs"

text \<open>The filter of \<^verbatim>\<open>OpenAIKeyProvider.get\<close>; \<open>checkKeys\<close> is
  \<^verbatim>\<open>config.checkKeys\<close>.\<close>

definition openaiAvailable :: "bool \<Rightarrow> string \<Rightarrow> 'a OpenAIKey_scheme \<Rightarrow> bool" where
  "openaiAvailable checkKeys model k =
     (let neededFamily = getOpenAIModelFamily model;
          excludeTrials = (model = ''text-embedding-ada-002'')
      in \<not> isDisabled k \<and>
         neededFamily \<in> set (modelFamilies k) \<and>
         (\<not> excludeTrials \<or> \<not> isTrial k) \<and>
         (\<not> checkKeys \<or> model \<in> set (modelIds k)))"

text \<open>The tiebreaker \<^verbatim>\<open>(a, b) => +a.isTrial - +b.isTrial\<close> that
  \<^verbatim>\<open>OpenAIKeyProvider.get\<close> passes to \<^verbatim>\<open>prioritizeKeys\<close>.\<close>

definition openaiTrialComparator :: "'a OpenAIKey_scheme \<Rightarrow> 'a OpenAIKey_scheme \<Rightarrow> int" where
  "openaiTrialComparator a b = (if isTrial a then 1 else 0) - (if isTrial b then 1 else 0)"

text \<open>\<^verbatim>\<open>OpenAIKeyProvider.get\<close>: the result is the copy handed to the caller and
  the pool after the call.\<close>

definition openaiGet ::
  "bool \<Rightarrow> int \<Rightarrow> string \<Rightarrow> OpenAIKey list \<Rightarrow> provider_error + (OpenAIKey \<times> OpenAIKey list)" where
  "openaiGet checkKeys now requestModel keys =
     (let model = requestModel;
          availableKeys =
            filter (\<lambda>r. openaiAvailable checkKeys model (snd r)) (enumerate 0 keys)
      in if length availableKeys = 0 then Inl PaymentRequiredError
         else
           let keysByPriority =
                 prioritizeRefs now (Some openaiTrialComparator) availableKeys;
               selected = fst (hd keysByPriority);
               keys1 = keys[selected := (keys ! selected)\<lparr>lastUsed := now\<rparr>]
           in case openaiThrottle now (hash (keys1 ! selected)) keys1 of
                None \<Rightarrow> Inl TypeError
              | Some keys2 \<Rightarrow> Inr (keys2 ! selected, keys2))"





section \<open>The in-flight request\<close>

text \<open>\<^verbatim>\<open>APIFormat\<close> of \<^verbatim>\<open>shared/key-management/index.ts\<close>\<close>

datatype APIFormat =
  OpenAI | OpenAIText | OpenAIImage | AnthropicChat | AnthropicText
  | GoogleAI | MistralAI | MistralText

text \<open>\<^verbatim>\<open>LLMService\<close> of \<^verbatim>\<open>shared/models.ts\<close>\<close>

datatype LLMService =
  SvcOpenAI | SvcAnthropic | SvcGoogleAI | SvcMistralAI | SvcAws | SvcGcp | SvcAzure

text \<open>\<^verbatim>\<open>MistralChatMessageSchema\<close>; the field \<^verbatim>\<open>prefix\<close> is \<open>msgPrefix\<close>.\<close>

record MistralAIChatMessage =
  role :: string
  content :: string
  msgPrefix :: "bool option"

text \<open>
  A request body. A parsed JSON body is represented by the properties the code below
  reads: \<^verbatim>\<open>model\<close>, \<^verbatim>\<open>messages\<close>, \<^verbatim>\<open>prompt\<close> (absent when \<open>None\<close>)
  and \<open>stream\<close>, which is true when \<^verbatim>\<open>body.stream\<close> is \<^verbatim>\<open>true\<close> or
  \<^verbatim>\<open>"true"\<close>. After the body finalizer has run the body is the serialized text.
\<close>

record JsonBody =
  model :: "string option"
  messages :: "MistralAIChatMessage list option"
  prompt :: "string option"
  stream :: bool

datatype Body = Json JsonBody | Serialized string

definition bodyStream :: "Body \<Rightarrow> bool" where
  "bodyStream b = (case b of Json j \<Rightarrow> stream j | Serialized _ \<Rightarrow> False)"

text \<open>The signed envelope that the signing mutators attach to the request.\<close>

record SignedRequest =
  srMethod :: string
  srHostname :: string
  srPath :: string
  srHeaders :: "(string \<times> string) list"
  srBody :: string

text \<open>
  The properties of the Express request that the queue, the preprocessors, the request
  manager and the response handler read or write. \<open>reqId\<close> is \<^verbatim>\<open>req.id\<close>,
  \<open>userToken\<close> is \<^verbatim>\<open>req.user?.token\<close>, \<open>socketDestroyed\<close> is
  \<^verbatim>\<open>req.socket.destroyed\<close>, \<open>writableEnded\<close> and \<open>headersSent\<close> are those of
  \<^verbatim>\<open>req.res\<close>, \<open>reqKey\<close> is \<^verbatim>\<open>req.key\<close>, \<open>reqService\<close> is
  \<^verbatim>\<open>req.service\<close>. \<open>modelFamily\<close> is the value
  that \<^verbatim>\<open>getModelFamilyForRequest\<close> computes once and caches on the request.
  \<open>headers\<close> is the header object of Node, keyed by lower-case names.
\<close>

record Request =
  reqId :: string
  userToken :: "string option"
  risuToken :: "string option"
  ip :: string
  socketDestroyed :: bool
  writableEnded :: bool
  headersSent :: bool
  isStreaming :: bool
  inboundApi :: APIFormat
  outboundApi :: APIFormat
  reqService :: LLMService
  modelFamily :: ModelFamily
  startTime :: int
  queueOutTime :: int
  retryCount :: int
  promptTokens :: "int option"
  outputTokens :: "int option"
  headers :: "string \<rightharpoonup> string"
  url :: string
  body :: Body
  reqKey :: "Key option"
  signedRequest :: "SignedRequest option"

section \<open>The API-format transform preprocessor\<close>

text \<open>
  The sources hold two functions \<^verbatim>\<open>transformOutboundPayload\<close>. The first is the
  one in \<^verbatim>\<open>preprocessors/transform-outbound-payload.ts\<close>, which
  \<^verbatim>\<open>middleware/request/index.ts\<close> exports; the second is a copy of that file in which
  the body of the function has been replaced by a pass-through. Both are embedded, the
  second under the name \<open>transformOutboundPayloadPassthrough\<close>. A preprocessor mutates
  the request it is given; the models return the request after the call, or what was
  thrown.
\<close>

text \<open>\<^verbatim>\<open>MistralMessagesSchema\<close>: the refinement on the position of
  \<^verbatim>\<open>prefix\<close>.\<close>

definition MistralMessagesSchema :: "MistralAIChatMessage list \<Rightarrow> bool" where
  "MistralMessagesSchema input =
     (list_all (\<lambda>m. role m \<in> set [''system'', ''user'', ''assistant'', ''tool'']) input \<and>
      (case find (\<lambda>i. msgPrefix (input ! i) = Some True) [0 ..< length input] of
         None \<Rightarrow> True
       | Some prefixIdx \<Rightarrow>
           (let lastIdx = length input - 1; lastMsg = input ! lastIdx
            in prefixIdx = lastIdx \<and> role lastMsg = ''assistant'')))"

text \<open>
  Whether a body parses under \<^verbatim>\<open>MistralAIV1ChatCompletionsSchema\<close> and under
  \<^verbatim>\<open>MistralAIV1TextCompletionsSchema\<close>. Every other property of the base schema is
  optional or has a default; the bodies modelled here leave them out.
\<close>

definition MistralAIV1ChatCompletionsSchema :: "Body \<Rightarrow> bool" where
  "MistralAIV1ChatCompletionsSchema b =
     (case b of
        Json j \<Rightarrow>
          model j \<noteq> None \<and>
          (case messages j of None \<Rightarrow> False | Some ms \<Rightarrow> MistralMessagesSchema ms)
      | Serialized _ \<Rightarrow> False)"

definition MistralAIV1TextCompletionsSchema :: "Body \<Rightarrow> bool" where
  "MistralAIV1TextCompletionsSchema b =
     (case b of
        Json j \<Rightarrow>
          model j \<noteq> None \<and>
          (case messages j of None \<Rightarrow> True | Some ms \<Rightarrow> MistralMessagesSchema ms) \<and>
          prompt j \<noteq> None
      | Serialized _ \<Rightarrow> False)"

text \<open>What the preprocessor throws: a \<^verbatim>\<open>ZodError\<close> from a schema, the
  \<^verbatim>\<open>BadRequestError\<close> for a pair of formats without a transformer, and the
  \<^verbatim>\<open>TypeError\<close> of reading a property of \<^verbatim>\<open>undefined\<close> or writing one
  on a value that is not an object.\<close>

datatype transform_error = ZodError | UnsupportedTransformation | JsTypeError

text \<open>One turn of the reducer of \<^verbatim>\<open>fixMistralPrompt\<close>.\<close>

definition fixMistralStep ::
  "MistralAIChatMessage list \<Rightarrow> MistralAIChatMessage \<Rightarrow> MistralAIChatMessage list" where
  "fixMistralStep acc msg =
     (if length acc = 0 then acc @ [msg]
      else
        let copy = (if role msg = ''system'' then msg\<lparr>role := ''user''\<rparr> else msg);
            lastMsg = last acc
        in if role lastMsg = role copy
           then butlast acc @
                  [lastMsg\<lparr>content := content lastMsg @ [CHR 0x0A, CHR 0x0A] @ content copy\<rparr>]
           else acc @ [copy])"

text \<open>\<^verbatim>\<open>fixMistralPrompt\<close>; on an empty array
  \<^verbatim>\<open>fixed[fixed.length - 1].role\<close> throws.\<close>

definition fixMistralPrompt ::
  "MistralAIChatMessage list \<Rightarrow> transform_error + MistralAIChatMessage list" where
  "fixMistralPrompt msgs =
     (let fixed = foldl fixMistralStep [] msgs
      in if fixed = [] then Inl JsTypeError
         else if role (last fixed) = ''assistant''
           then Inr (butlast fixed @ [(last fixed)\<lparr>msgPrefix := Some True\<rparr>])
         else Inr fixed)"

text \<open>
  \<^verbatim>\<open>applyMistralPromptFixes\<close>. \<open>validators\<close> is the table
  \<^verbatim>\<open>API_REQUEST_VALIDATORS\<close> of \<^verbatim>\<open>shared/api-schemas/index.ts\<close>, which is not
  among the sources: an entry parses a body and returns the parsed body or throws.
\<close>

definition applyMistralPromptFixes ::
  "(APIFormat \<Rightarrow> Body \<Rightarrow> transform_error + Body) \<Rightarrow> Request \<Rightarrow> transform_error + Request" where
  "applyMistralPromptFixes validators req =
     (if inboundApi req = MistralAI
      then
        (case validators MistralAI (body req) of
           Inl e \<Rightarrow> Inl e
         | Inr result \<Rightarrow>
             (case (result, body req) of
                (Json parsed, Json original) \<Rightarrow>
                  (case messages parsed of
                     None \<Rightarrow> Inl JsTypeError
                   | Some parsedMessages \<Rightarrow>
                       (case fixMistralPrompt parsedMessages of
                          Inl e \<Rightarrow> Inl e
                        | Inr fixed \<Rightarrow>
                            (let lastMessage = last fixed
                             in if role lastMessage = ''assistant'' \<and> reqService req = SvcAws
                                then Inr (req\<lparr>body :=
                                            Json (original\<lparr>messages :=
                                              Some (butlast fixed @
                                                    [lastMessage\<lparr>msgPrefix := Some True\<rparr>])\<rparr>),
                                          outboundApi := MistralText\<rparr>)
                                else Inr (req\<lparr>body :=
                                            Json (original\<lparr>messages := Some fixed\<rparr>)\<rparr>))))
              | _ \<Rightarrow> Inl JsTypeError))
      else Inr req)"

text \<open>
  \<^verbatim>\<open>transformOutboundPayload\<close> of
  \<^verbatim>\<open>preprocessors/transform-outbound-payload.ts\<close>. \<open>transformers\<close> is the table
  \<^verbatim>\<open>API_REQUEST_TRANSFORMERS\<close>, keyed by the pair of formats, and
  \<open>isTextGenerationRequest\<close> and \<open>isImageGenerationRequest\<close> are the predicates of
  \<^verbatim>\<open>middleware/common.ts\<close>; none of the three is among the sources.
\<close>

definition transformOutboundPayload ::
  "(APIFormat \<Rightarrow> Body \<Rightarrow> transform_error + Body)
     \<Rightarrow> (APIFormat \<Rightarrow> APIFormat \<Rightarrow> (Request \<Rightarrow> transform_error + Body) option)
     \<Rightarrow> (Request \<Rightarrow> bool) \<Rightarrow> (Request \<Rightarrow> bool) \<Rightarrow> Request \<Rightarrow> transform_error + Request" where
  "transformOutboundPayload validators transformers isTextGenerationRequest
       isImageGenerationRequest req =
     (let alreadyTransformed = retryCount req > 0;
          notTransformable = \<not> isTextGenerationRequest req \<and> \<not> isImageGenerationRequest req
      in if alreadyTransformed then Inr req
         else if notTransformable then Inr req
         else
           (case applyMistralPromptFixes validators req of
              Inl e \<Rightarrow> Inl e
            | Inr req1 \<Rightarrow>
                (let isNativePrompt = (inboundApi req1 = outboundApi req1)
                 in if isNativePrompt
                    then (case validators (inboundApi req1) (body req1) of
                            Inl e \<Rightarrow> Inl e
                          | Inr result \<Rightarrow> Inr (req1\<lparr>body := result\<rparr>))
                    else (case transformers (inboundApi req1) (outboundApi req1) of
                            Some transFn \<Rightarrow>
                              (case transFn req1 of
                                 Inl e \<Rightarrow> Inl e
                               | Inr newBody \<Rightarrow> Inr (req1\<lparr>body := newBody\<rparr>))
                          | None \<Rightarrow> Inl UnsupportedTransformation))))"

text \<open>
  \<^verbatim>\<open>transformMistralChatToText\<close> of \<^verbatim>\<open>shared/api-schemas/mistral-ai.ts\<close>, the
  transformer for Mistral chat to Mistral text; \<open>renderMistralPrompt\<close> renders the
  messages with the chat template, which is not among the sources.
\<close>

definition transformMistralChatToText ::
  "(MistralAIChatMessage list \<Rightarrow> string) \<Rightarrow> Request \<Rightarrow> transform_error + Body" where
  "transformMistralChatToText renderMistralPrompt req =
     (if MistralAIV1ChatCompletionsSchema (body req)
      then (case body req of
              Json j \<Rightarrow>
                (case messages j of
                   Some msgs \<Rightarrow>
                     Inr (Json (j\<lparr>prompt := Some (renderMistralPrompt msgs), messages := None\<rparr>))
                 | None \<Rightarrow> Inl ZodError)
            | Serialized t \<Rightarrow> Inl ZodError)
      else Inl ZodError)"

text \<open>
  The pass-through copy of \<^verbatim>\<open>transformOutboundPayload\<close>: both branches return
  without touching the request, and nothing is thrown.
\<close>

definition transformOutboundPayloadPassthrough :: "Request \<Rightarrow> Request" where
  "transformOutboundPayloadPassthrough req =
     (let alreadyTransformed = retryCount req > 0
      in if alreadyTransformed then req
         else req)"

section \<open>The request manager\<close>

text \<open>\<^verbatim>\<open>String.prototype.toLowerCase\<close> on ASCII\<close>

definition toLowerChar :: "char \<Rightarrow> char" where
  "toLowerChar c =
     (case map_of (zip ''ABCDEFGHIJKLMNOPQRSTUVWXYZ'' ''abcdefghijklmnopqrstuvwxyz'') c of
        Some l \<Rightarrow> l
      | None \<Rightarrow> c)"

definition toLowerCase :: "string \<Rightarrow> string" where
  "toLowerCase s = map toLowerChar s"

text \<open>
  \<^verbatim>\<open>req.get(name)\<close> of Express: a case-insensitive lookup in which, as the Express
  documentation puts it, the \<^verbatim>\<open>Referrer\<close> and \<^verbatim>\<open>Referer\<close> fields are
  interchangeable: for either name the result is
  \<^verbatim>\<open>this.headers.referrer || this.headers.referer\<close>.
\<close>

definition req_get :: "Request \<Rightarrow> string \<Rightarrow> string option" where
  "req_get r name =
     (let lc = toLowerCase name
      in if lc = ''referer'' \<or> lc = ''referrer''
         then (case headers r ''referrer'' of
                 Some v \<Rightarrow> (if v \<noteq> [] then Some v else headers r ''referer'')
               | None \<Rightarrow> headers r ''referer'')
         else headers r lc)"

text \<open>\<^verbatim>\<open>req.path\<close> of Express, the path of \<^verbatim>\<open>req.url\<close> without its query
  string (for a request target in origin form).\<close>

definition req_path :: "Request \<Rightarrow> string" where
  "req_path r = takeWhile (\<lambda>c. c \<noteq> CHR ''?'') (url r)"

text \<open>\<^verbatim>\<open>ProxyReqMutation\<close>: the target, the key (for a header) and the original
  value, one constructor for each target.\<close>

datatype ProxyReqMutation =
  HeaderMutation string "string option"
  | PathMutation string
  | BodyMutation Body
  | ApiKeyMutation "Key option"
  | SignedRequestMutation "SignedRequest option"

record ProxyReqManager =
  req :: Request
  mutations :: "ProxyReqMutation list"

definition newProxyReqManager :: "Request \<Rightarrow> ProxyReqManager" where
  "newProxyReqManager r = \<lparr>req = r, mutations = []\<rparr>"

definition setHeader :: "string \<Rightarrow> string \<Rightarrow> ProxyReqManager \<Rightarrow> ProxyReqManager" where
  "setHeader name newValue m =
     (let originalValue = req_get (req m) name
      in m\<lparr>mutations := mutations m @ [HeaderMutation name originalValue],
            req := (req m)\<lparr>headers := (headers (req m))(toLowerCase name \<mapsto> newValue)\<rparr>\<rparr>)"

definition removeHeader :: "string \<Rightarrow> ProxyReqManager \<Rightarrow> ProxyReqManager" where
  "removeHeader name m =
     (let originalValue = req_get (req m) name
      in m\<lparr>mutations := mutations m @ [HeaderMutation name originalValue],
            req := (req m)\<lparr>headers := (headers (req m))(toLowerCase name := None)\<rparr>\<rparr>)"

definition setBody :: "Body \<Rightarrow> ProxyReqManager \<Rightarrow> ProxyReqManager" where
  "setBody newBody m =
     (let originalValue = body (req m)
      in m\<lparr>mutations := mutations m @ [BodyMutation originalValue],
            req := (req m)\<lparr>body := newBody\<rparr>\<rparr>)"

definition setKey :: "Key \<Rightarrow> ProxyReqManager \<Rightarrow> ProxyReqManager" where
  "setKey newKey m =
     (let originalValue = reqKey (req m)
      in m\<lparr>mutations := mutations m @ [ApiKeyMutation originalValue],
            req := (req m)\<lparr>reqKey := Some newKey\<rparr>\<rparr>)"

definition setPath :: "string \<Rightarrow> ProxyReqManager \<Rightarrow> ProxyReqManager" where
  "setPath newPath m =
     (let originalValue = req_path (req m)
      in m\<lparr>mutations := mutations m @ [PathMutation originalValue],
            req := (req m)\<lparr>url := newPath\<rparr>\<rparr>)"

definition setSignedRequest :: "SignedRequest option \<Rightarrow> ProxyReqManager \<Rightarrow> ProxyReqManager" where
  "setSignedRequest newSignedRequest m =
     (let originalValue = signedRequest (req m)
      in m\<lparr>mutations := mutations m @ [SignedRequestMutation originalValue],
            req := (req m)\<lparr>signedRequest := newSignedRequest\<rparr>\<rparr>)"

definition hasChanged :: "ProxyReqManager \<Rightarrow> bool" where
  "hasChanged m = (length (mutations m) > 0)"

text \<open>One turn of the loop of \<^verbatim>\<open>revert\<close>.\<close>

fun revertMutation :: "Request \<Rightarrow> ProxyReqMutation \<Rightarrow> Request" where
  "revertMutation r (HeaderMutation k originalValue) =
     (case originalValue of
        None \<Rightarrow> r\<lparr>headers := (headers r)(toLowerCase k := None)\<rparr>
      | Some v \<Rightarrow> r\<lparr>headers := (headers r)(toLowerCase k \<mapsto> v)\<rparr>)"
| "revertMutation r (PathMutation originalValue) = r\<lparr>url := originalValue\<rparr>"
| "revertMutation r (BodyMutation originalValue) = r\<lparr>body := originalValue\<rparr>"
| "revertMutation r (ApiKeyMutation originalValue) = r"
| "revertMutation r (SignedRequestMutation originalValue) =
     r\<lparr>signedRequest := originalValue\<rparr>"

definition revert :: "ProxyReqManager \<Rightarrow> ProxyReqManager" where
  "revert m =
     m\<lparr>req := foldl revertMutation (req m) (rev (mutations m)), mutations := []\<rparr>"

text \<open>The calls a mutator can make on the manager, and a run of them in order.\<close>

datatype ManagerCall =
  SetHeader string string
  | RemoveHeader string
  | SetBody Body
  | SetKey Key
  | SetPath string
  | SetSignedRequest "SignedRequest option"

fun applyCall :: "ProxyReqManager \<Rightarrow> ManagerCall \<Rightarrow> ProxyReqManager" where
  "applyCall m (SetHeader name v) = setHeader name v m"
| "applyCall m (RemoveHeader name) = removeHeader name m"
| "applyCall m (SetBody b) = setBody b m"
| "applyCall m (SetKey k) = setKey k m"
| "applyCall m (SetPath p) = setPath p m"
| "applyCall m (SetSignedRequest sr) = setSignedRequest sr m"

definition applyCalls :: "ProxyReqManager \<Rightarrow> ManagerCall list \<Rightarrow> ProxyReqManager" where
  "applyCalls m calls = foldl applyCall m calls"


section \<open>JavaScript numbers\<close>

text \<open>
  A JavaScript number is an IEEE 754 binary64 value. \<open>JsFinite m e\<close> stands for the
  real number \<open>m * 2 ^ e\<close>; the sign of zero is not kept, since no operation below
  tells the two zeros apart.
\<close>

datatype JsNumber = JsFinite int int | JsPosInfinity | JsNegInfinity | JsNaN

text \<open>The number of binary digits of a natural number.\<close>

fun bitLength :: "nat \<Rightarrow> nat" where
  "bitLength n = (if n = 0 then 0 else Suc (bitLength (n div 2)))"

declare bitLength.simps [simp del]

text \<open>\<open>m / d\<close> rounded to the nearest integer, a tie going to the even one
  (\<open>d\<close> is positive).\<close>

definition roundHalfEven :: "int \<Rightarrow> int \<Rightarrow> int" where
  "roundHalfEven m d =
     (let q = m div d; r = m mod d
      in if 2 * r < d then q
         else if d < 2 * r then q + 1
         else if even q then q else q + 1)"

text \<open>
  The binary64 value nearest to \<open>m * 2 ^ e\<close> (round to nearest, ties to even): 53
  significant bits, the unit in the last place never below \<open>2 ^ -1074\<close>, and an
  infinity when the rounded magnitude reaches \<open>2 ^ 1024\<close>.
\<close>

definition roundToDouble :: "int \<Rightarrow> int \<Rightarrow> JsNumber" where
  "roundToDouble m e =
     (if m = 0 then JsFinite 0 0
      else
        let b = int (bitLength (nat \<bar>m\<bar>));
            t = max (e + b - 53) (- 1074);
            n = (if t \<le> e then m * 2 ^ nat (e - t) else roundHalfEven m (2 ^ nat (t - e)))
        in if 1024 < t + int (bitLength (nat \<bar>n\<bar>))
           then (if 0 < m then JsPosInfinity else JsNegInfinity)
           else JsFinite n t)"

definition jsSign :: "JsNumber \<Rightarrow> int" where
  "jsSign a =
     (case a of
        JsFinite m e \<Rightarrow> sgn m
      | JsPosInfinity \<Rightarrow> 1
      | JsNegInfinity \<Rightarrow> - 1
      | JsNaN \<Rightarrow> 0)"

text \<open>The operator \<^verbatim>\<open>*\<close>\<close>

definition jsMul :: "JsNumber \<Rightarrow> JsNumber \<Rightarrow> JsNumber" where
  "jsMul a b =
     (case (a, b) of
        (JsFinite m1 e1, JsFinite m2 e2) \<Rightarrow> roundToDouble (m1 * m2) (e1 + e2)
      | _ \<Rightarrow>
          (if a = JsNaN \<or> b = JsNaN \<or> jsSign a * jsSign b = 0 then JsNaN
           else if 0 < jsSign a * jsSign b then JsPosInfinity
           else JsNegInfinity))"

text \<open>The operator \<^verbatim>\<open>+\<close> on numbers\<close>

definition jsAdd :: "JsNumber \<Rightarrow> JsNumber \<Rightarrow> JsNumber" where
  "jsAdd a b =
     (case (a, b) of
        (JsFinite m1 e1, JsFinite m2 e2) \<Rightarrow>
          (let e = min e1 e2
           in roundToDouble (m1 * 2 ^ nat (e1 - e) + m2 * 2 ^ nat (e2 - e)) e)
      | _ \<Rightarrow>
          (if a = JsNaN \<or> b = JsNaN then JsNaN
           else if (a = JsPosInfinity \<and> b = JsNegInfinity) \<or>
                   (a = JsNegInfinity \<and> b = JsPosInfinity) then JsNaN
           else if a = JsPosInfinity \<or> b = JsPosInfinity then JsPosInfinity
           else JsNegInfinity))"

text \<open>The operator \<^verbatim>\<open><\<close> on numbers\<close>

definition jsLess :: "JsNumber \<Rightarrow> JsNumber \<Rightarrow> bool" where
  "jsLess a b =
     (case (a, b) of
        (JsFinite m1 e1, JsFinite m2 e2) \<Rightarrow>
          (let e = min e1 e2
           in m1 * 2 ^ nat (e1 - e) < m2 * 2 ^ nat (e2 - e))
      | _ \<Rightarrow>
          a \<noteq> JsNaN \<and> b \<noteq> JsNaN \<and> a \<noteq> b \<and> (a = JsNegInfinity \<or> b = JsPosInfinity))"


section \<open>The request queue\<close>

text \<open>
  The constants the queue reads: \<^verbatim>\<open>USER_CONCURRENCY_LIMIT\<close> and
  \<^verbatim>\<open>LOAD_THRESHOLD\<close> (parsed from the environment when the module loads) and
  \<^verbatim>\<open>config.tokensPunishmentFactor\<close>, a JavaScript number.
\<close>

record QueueConfig =
  USER_CONCURRENCY_LIMIT :: int
  LOAD_THRESHOLD :: real
  tokensPunishmentFactor :: JsNumber

datatype queue_error =
  AbortedRequestError | TooManyRequestsError | BadRequestError | UnresponsiveClientError

definition getIdentifier :: "Request \<Rightarrow> string" where
  "getIdentifier r =
     (case userToken r of
        Some token \<Rightarrow> token
      | None \<Rightarrow>
          (case risuToken r of
             Some t \<Rightarrow> (if t \<noteq> [] then t else ip r)
           | None \<Rightarrow> ip r))"

definition sharesIdentifierWith :: "Request \<Rightarrow> Request \<Rightarrow> bool" where
  "sharesIdentifierWith incoming queued = (getIdentifier queued = getIdentifier incoming)"

definition getProxyLoad :: "nat \<Rightarrow> Request list \<Rightarrow> nat" where
  "getProxyLoad uniqueIps queue = max uniqueIps (length queue)"

text \<open>
  \<^verbatim>\<open>enqueue\<close> is an \<^verbatim>\<open>async\<close> function with one suspension point: a request
  that streams and whose response headers are not yet sent waits on
  \<^verbatim>\<open>await initStreaming(req)\<close> after its identity has been counted and before
  \<^verbatim>\<open>queue.push(req)\<close>. Other handlers run on the queue while it waits. The call is
  therefore modelled in two parts. \<open>uniqueIps\<close> is what \<^verbatim>\<open>getUniqueIps()\<close>
  returns.
\<close>

datatype EnqueueProgress = Enqueued "Request list" | AwaitingJoin Request

text \<open>
  The part of \<^verbatim>\<open>enqueue\<close> that runs without interruption: to a \<^verbatim>\<open>throw\<close>, to
  the end of the call (the queue after \<^verbatim>\<open>queue.push\<close>), or to the suspension
  inside \<^verbatim>\<open>initStreaming\<close>, which has sent the headers and written the join
  message.
\<close>

definition enqueueBegin ::
  "QueueConfig \<Rightarrow> nat \<Rightarrow> Request \<Rightarrow> Request list \<Rightarrow> queue_error + EnqueueProgress" where
  "enqueueBegin cfg uniqueIps r queue =
     (if socketDestroyed r \<or> writableEnded r then Inl AbortedRequestError
      else
        let enqueuedRequestCount = length (filter (sharesIdentifierWith r) queue)
        in if int enqueuedRequestCount \<ge> USER_CONCURRENCY_LIMIT cfg
           then Inl TooManyRequestsError
           else if bodyStream (body r) \<or> isStreaming r
             then (if \<not> headersSent r
                   then Inr (AwaitingJoin (r\<lparr>headersSent := True\<rparr>))
                   else Inr (Enqueued (queue @ [r\<lparr>queueOutTime := 0\<rparr>])))
           else if real (getProxyLoad uniqueIps queue) > LOAD_THRESHOLD cfg
             then Inl BadRequestError
           else Inr (Enqueued (queue @ [r\<lparr>queueOutTime := 0\<rparr>])))"

text \<open>
  The rest of the call, once the promise of \<^verbatim>\<open>initStreaming\<close> has settled:
  \<open>joinDrained\<close> tells whether the client took the join message before
  \<^verbatim>\<open>QUEUE_JOIN_TIMEOUT\<close>. \<open>queue\<close> is the queue at that moment; the identity is
  not counted again.
\<close>

definition enqueueResume :: "bool \<Rightarrow> Request \<Rightarrow> Request list \<Rightarrow> queue_error + Request list" where
  "enqueueResume joinDrained r queue =
     (if joinDrained then Inr (queue @ [r\<lparr>queueOutTime := 0\<rparr>])
      else Inl UnresponsiveClientError)"

text \<open>A call of \<^verbatim>\<open>enqueue\<close> during which nothing else touches the queue.\<close>

definition enqueue ::
  "QueueConfig \<Rightarrow> nat \<Rightarrow> bool \<Rightarrow> Request \<Rightarrow> Request list \<Rightarrow> queue_error + Request list" where
  "enqueue cfg uniqueIps joinDrained r queue =
     (case enqueueBegin cfg uniqueIps r queue of
        Inl e \<Rightarrow> Inl e
      | Inr (Enqueued queue') \<Rightarrow> Inr queue'
      | Inr (AwaitingJoin r') \<Rightarrow> enqueueResume joinDrained r' queue)"

definition reenqueueRequest ::
  "QueueConfig \<Rightarrow> nat \<Rightarrow> bool \<Rightarrow> Request \<Rightarrow> Request list \<Rightarrow> queue_error + Request list" where
  "reenqueueRequest cfg uniqueIps joinDrained r queue =
     enqueue cfg uniqueIps joinDrained (r\<lparr>retryCount := retryCount r + 1\<rparr>) queue"

definition getQueueForPartition :: "ModelFamily \<Rightarrow> Request list \<Rightarrow> Request list" where
  "getQueueForPartition family queue = filter (\<lambda>r. modelFamily r = family) queue"

text \<open>
  \<^verbatim>\<open>dequeue\<close>: the request handed back and the queue afterwards. The reducer
  compares \<^verbatim>\<open>startTime + config.tokensPunishmentFactor * ((promptTokens ?? 0) +
  (outputTokens ?? 0))\<close> of the two requests in JavaScript arithmetic; the integral
  fields enter it as the numbers they are. \<^verbatim>\<open>queue.splice(queue.indexOf(req), 1)\<close>
  drops the first occurrence of the chosen object; requests are told apart by their fields
  (each has its own \<open>reqId\<close>).
\<close>

definition dequeue ::
  "QueueConfig \<Rightarrow> int \<Rightarrow> ModelFamily \<Rightarrow> Request list \<Rightarrow> Request option \<times> Request list" where
  "dequeue cfg now family queue =
     (let modelQueue = getQueueForPartition family queue
      in if length modelQueue = 0 then (None, queue)
         else
           let r = foldl (\<lambda>prev curr.
                            if jsLess
                                 (jsAdd (JsFinite (startTime prev) 0)
                                    (jsMul (tokensPunishmentFactor cfg)
                                       (jsAdd
                                          (JsFinite (case promptTokens prev of Some n \<Rightarrow> n | None \<Rightarrow> 0) 0)
                                          (JsFinite (case outputTokens prev of Some n \<Rightarrow> n | None \<Rightarrow> 0) 0))))
                                 (jsAdd (JsFinite (startTime curr) 0)
                                    (jsMul (tokensPunishmentFactor cfg)
                                       (jsAdd
                                          (JsFinite (case promptTokens curr of Some n \<Rightarrow> n | None \<Rightarrow> 0) 0)
                                          (JsFinite (case outputTokens curr of Some n \<Rightarrow> n | None \<Rightarrow> 0) 0))))
                            then prev else curr)
                         (hd modelQueue) (tl modelQueue)
           in (Some (r\<lparr>queueOutTime := now\<rparr>), remove1 r queue))"

definition MODEL_FAMILIES :: "ModelFamily list" where
  "MODEL_FAMILIES =
     [''turbo'', ''gpt4'', ''gpt4-32k'', ''gpt4-turbo'', ''gpt4o'', ''o1'', ''o1-mini'',
      ''dall-e'', ''claude'', ''claude-opus'', ''gemini-flash'', ''gemini-pro'',
      ''gemini-ultra'', ''mistral-tiny'', ''mistral-small'', ''mistral-medium'',
      ''mistral-large'', ''aws-claude'', ''aws-claude-opus'', ''aws-mistral-tiny'',
      ''aws-mistral-small'', ''aws-mistral-medium'', ''aws-mistral-large'', ''gcp-claude'',
      ''gcp-claude-opus'', ''azure-turbo'', ''azure-gpt4'', ''azure-gpt4-32k'',
      ''azure-gpt4-turbo'', ''azure-gpt4o'', ''azure-dall-e'', ''azure-o1'',
      ''azure-o1-mini'']"

text \<open>
  The first loop of \<^verbatim>\<open>processQueue\<close> over a list of families: \<open>lockout\<close> is
  \<^verbatim>\<open>keyPool.getLockoutPeriod\<close>; the result is the array \<^verbatim>\<open>reqs\<close> and the
  queue afterwards.
\<close>

fun processFamilies ::
  "QueueConfig \<Rightarrow> (ModelFamily \<Rightarrow> int) \<Rightarrow> int \<Rightarrow> ModelFamily list \<Rightarrow> Request list
     \<Rightarrow> Request option list \<times> Request list" where
  "processFamilies cfg lockout now [] queue = ([], queue)"
| "processFamilies cfg lockout now (f # fs) queue =
     (if lockout f = 0
      then (case dequeue cfg now f queue of
              (r, queue') \<Rightarrow>
                (case processFamilies cfg lockout now fs queue' of
                   (rs, queue'') \<Rightarrow> (r # rs, queue'')))
      else processFamilies cfg lockout now fs queue)"

definition processQueue ::
  "QueueConfig \<Rightarrow> (ModelFamily \<Rightarrow> int) \<Rightarrow> int \<Rightarrow> Request list
     \<Rightarrow> Request list \<times> Request list" where
  "processQueue cfg lockout now queue =
     (case processFamilies cfg lockout now MODEL_FAMILIES queue of
        (reqs, queue') \<Rightarrow> (map the (filter (\<lambda>r. r \<noteq> None) reqs), queue'))"







section \<open>The wait-time estimator\<close>

record WaitTime =
  wtPartition :: ModelFamily
  wtStart :: int
  wtEnd :: int

text \<open>The module state of the estimator: \<^verbatim>\<open>waitTimes\<close> and the three maps.\<close>

record Estimator =
  waitTimes :: "WaitTime list"
  historicalEmas :: "ModelFamily \<rightharpoonup> real"
  currentEmas :: "ModelFamily \<rightharpoonup> real"
  estimates :: "ModelFamily \<rightharpoonup> real"

definition ALPHA_HISTORICAL :: real where
  "ALPHA_HISTORICAL = 2 / 10"

definition ALPHA_CURRENT :: real where
  "ALPHA_CURRENT = 3 / 10"

text \<open>\<^verbatim>\<open>Math.max(...xs, 0)\<close>\<close>

definition math_max0 :: "int list \<Rightarrow> int" where
  "math_max0 xs = foldr max xs 0"

definition recentAverageOf :: "int \<Rightarrow> ModelFamily \<Rightarrow> WaitTime list \<Rightarrow> real" where
  "recentAverageOf now family ws =
     (let recentWaits =
            map (\<lambda>w. wtEnd w - wtStart w)
              (filter (\<lambda>w. wtPartition w = family \<and> now - wtEnd w < 300 * 1000) ws)
      in if length recentWaits \<noteq> 0
         then real_of_int (foldl (+) 0 recentWaits) / real (length recentWaits)
         else 0)"

text \<open>\<^verbatim>\<open>calculateWaitTime\<close>: the value returned and the estimator afterwards.\<close>

definition calculateWaitTime ::
  "int \<Rightarrow> Request list \<Rightarrow> ModelFamily \<Rightarrow> Estimator \<Rightarrow> real \<times> Estimator" where
  "calculateWaitTime now queue family e =
     (let recentAverage = recentAverageOf now family (waitTimes e);
          historicalEma = (case historicalEmas e family of Some v \<Rightarrow> v | None \<Rightarrow> 0);
          e1 = e\<lparr>historicalEmas := (historicalEmas e)(family \<mapsto>
                  ALPHA_HISTORICAL * recentAverage + (1 - ALPHA_HISTORICAL) * historicalEma)\<rparr>;
          currentWaits =
            map (\<lambda>r. now - startTime r) (filter (\<lambda>r. modelFamily r = family) queue);
          longestCurrentWait = math_max0 currentWaits;
          currentEma = (case currentEmas e1 family of Some v \<Rightarrow> v | None \<Rightarrow> 0);
          e2 = e1\<lparr>currentEmas := (currentEmas e1)(family \<mapsto>
                  ALPHA_CURRENT * real_of_int longestCurrentWait
                  + (1 - ALPHA_CURRENT) * currentEma)\<rparr>
      in ((historicalEma + currentEma) / 2, e2))"

text \<open>The body of the \<^verbatim>\<open>setInterval\<close> callback for one family.\<close>

definition estimatorTick :: "int \<Rightarrow> Request list \<Rightarrow> ModelFamily \<Rightarrow> Estimator \<Rightarrow> Estimator" where
  "estimatorTick now queue family e =
     (case calculateWaitTime now queue family e of
        (estimate, e') \<Rightarrow> e'\<lparr>estimates := (estimates e')(family \<mapsto> estimate)\<rparr>)"

definition getEstimatedWaitTime :: "ModelFamily \<Rightarrow> Estimator \<Rightarrow> real" where
  "getEstimatedWaitTime family e =
     (case estimates e family of Some v \<Rightarrow> v | None \<Rightarrow> 0)"

text \<open>The estimator after \<^verbatim>\<open>start()\<close> for one family, with the samples given.\<close>

definition startedEstimator :: "ModelFamily \<Rightarrow> WaitTime list \<Rightarrow> Estimator" where
  "startedEstimator family ws =
     \<lparr>waitTimes = ws,
      historicalEmas = [family \<mapsto> 0],
      currentEmas = [family \<mapsto> 0],
      estimates = [family \<mapsto> 0]\<rparr>"


section \<open>The response handler: upstream status 429\<close>

text \<open>
  \<^verbatim>\<open>ProxiedErrorPayload\<close> as the handlers read it, after
  \<^verbatim>\<open>handleUpstreamErrors\<close> has normalised it: \<open>errorCode\<close>, \<open>errorType\<close>,
  \<open>errorMessage\<close> and \<open>errorStatus\<close> are \<^verbatim>\<open>error?.code\<close>,
  \<^verbatim>\<open>error?.type\<close>, \<^verbatim>\<open>error?.message\<close> and \<^verbatim>\<open>error?.status\<close>, and
  \<open>None\<close> stands for \<^verbatim>\<open>undefined\<close>.
\<close>

record ProxiedErrorPayload =
  errorCode :: "string option"
  errorType :: "string option"
  errorMessage :: "string option"
  errorStatus :: "string option"
  proxy_note :: "string option"

text \<open>The calls on \<^verbatim>\<open>keyPool\<close> that the handlers make, in the order made.\<close>

datatype KeyPoolCall = MarkRateLimited "Key option" | Disable "Key option" string

text \<open>What a handler throws: the retryable kind, the \<^verbatim>\<open>HttpError\<close> that follows
  \<^verbatim>\<open>sendProxyError\<close>, or whatever \<^verbatim>\<open>enqueue\<close> threw.\<close>

datatype thrown = RetryableError | HttpError int | QueueError queue_error

record ProxyState =
  psQueue :: "Request list"
  psKeyPoolCalls :: "KeyPoolCall list"

text \<open>A handler's outcome: what it threw (\<open>None\<close> when it returned), the payload and
  the state it left.\<close>

type_synonym HandlerResult = "thrown option \<times> ProxiedErrorPayload \<times> ProxyState"

text \<open>\<^verbatim>\<open>keyPool.markRateLimited(req.key!)\<close>\<close>

definition markRateLimited :: "Request \<Rightarrow> ProxyState \<Rightarrow> ProxyState" where
  "markRateLimited r st = st\<lparr>psKeyPoolCalls := psKeyPoolCalls st @ [MarkRateLimited (reqKey r)]\<rparr>"

definition disableKey :: "Request \<Rightarrow> string \<Rightarrow> ProxyState \<Rightarrow> ProxyState" where
  "disableKey r reason st = st\<lparr>psKeyPoolCalls := psKeyPoolCalls st @ [Disable (reqKey r) reason]\<rparr>"

text \<open>\<^verbatim>\<open>await reenqueueRequest(req); throw new RetryableError(...)\<close>\<close>

definition reenqueueAndThrow ::
  "QueueConfig \<Rightarrow> nat \<Rightarrow> bool \<Rightarrow> Request \<Rightarrow> ProxiedErrorPayload \<Rightarrow> ProxyState \<Rightarrow> HandlerResult" where
  "reenqueueAndThrow cfg uniqueIps joinDrained r payload st =
     (case reenqueueRequest cfg uniqueIps joinDrained r (psQueue st) of
        Inl e \<Rightarrow> (Some (QueueError e), payload, st)
      | Inr q' \<Rightarrow> (Some RetryableError, payload, st\<lparr>psQueue := q'\<rparr>))"

definition undefinedOr :: "string option \<Rightarrow> string" where
  "undefinedOr v = (case v of Some s \<Rightarrow> s | None \<Rightarrow> ''undefined'')"

definition handleAnthropicRateLimitError ::
  "QueueConfig \<Rightarrow> nat \<Rightarrow> bool \<Rightarrow> Request \<Rightarrow> ProxiedErrorPayload \<Rightarrow> ProxyState \<Rightarrow> HandlerResult" where
  "handleAnthropicRateLimitError cfg uniqueIps joinDrained r payload st =
     (if errorType payload = Some ''rate_limit_error''
      then reenqueueAndThrow cfg uniqueIps joinDrained r payload (markRateLimited r st)
      else (None,
            payload\<lparr>proxy_note :=
              Some ''Unrecognized 429 Too Many Requests error from the API.''\<rparr>,
            st))"

definition handleAwsRateLimitError ::
  "QueueConfig \<Rightarrow> nat \<Rightarrow> bool \<Rightarrow> Request \<Rightarrow> ProxiedErrorPayload \<Rightarrow> ProxyState \<Rightarrow> HandlerResult" where
  "handleAwsRateLimitError cfg uniqueIps joinDrained r payload st =
     (if errorType payload = Some ''ThrottlingException''
      then reenqueueAndThrow cfg uniqueIps joinDrained r payload (markRateLimited r st)
      else if errorType payload = Some ''ModelNotReadyException''
      then (None,
            payload\<lparr>proxy_note :=
              Some ''The requested model is overloaded. Try again in a few seconds.''\<rparr>,
            st)
      else (None,
            payload\<lparr>proxy_note :=
              Some (''Unrecognized rate limit error from AWS. ('' @
                    undefinedOr (errorType payload) @ '')'')\<rparr>,
            st))"

definition handleGcpRateLimitError ::
  "QueueConfig \<Rightarrow> nat \<Rightarrow> bool \<Rightarrow> Request \<Rightarrow> ProxiedErrorPayload \<Rightarrow> ProxyState \<Rightarrow> HandlerResult" where
  "handleGcpRateLimitError cfg uniqueIps joinDrained r payload st =
     (if errorType payload = Some ''RESOURCE_EXHAUSTED''
      then reenqueueAndThrow cfg uniqueIps joinDrained r payload (markRateLimited r st)
      else (None,
            payload\<lparr>proxy_note :=
              Some ''Unrecognized 429 Too Many Requests error from GCP.''\<rparr>,
            st))"

definition handleOpenAIRateLimitError ::
  "QueueConfig \<Rightarrow> nat \<Rightarrow> bool \<Rightarrow> Request \<Rightarrow> ProxiedErrorPayload \<Rightarrow> ProxyState \<Rightarrow> HandlerResult" where
  "handleOpenAIRateLimitError cfg uniqueIps joinDrained r payload st =
     (let type = errorType payload
      in if type = Some ''insufficient_quota'' \<or> type = Some ''invalid_request_error''
         then (None,
               payload\<lparr>proxy_note :=
                 Some ''Assigned key's quota has been exceeded. Please try again.''\<rparr>,
               disableKey r ''quota'' st)
         else if type = Some ''access_terminated''
         then (None,
               payload\<lparr>proxy_note :=
                 Some ''Assigned key has been banned by OpenAI for policy violations. Please try again.''\<rparr>,
               disableKey r ''revoked'' st)
         else if type = Some ''billing_not_active''
         then (None,
               payload\<lparr>proxy_note :=
                 Some ''Assigned key has been disabled due to delinquent billing. Please try again.''\<rparr>,
               disableKey r ''quota'' st)
         else if type = Some ''requests'' \<or> type = Some ''tokens''
         then (let st1 = markRateLimited r st
               in if (case errorMessage payload of
                        Some msg \<Rightarrow> str_includes msg ''on requests per day''
                      | None \<Rightarrow> False)
                  then (None,
                        payload\<lparr>proxy_note :=
                          Some ''Assigned key has reached its per-day request limit for this model. Try another model.''\<rparr>,
                        st1)
                  else reenqueueAndThrow cfg uniqueIps joinDrained r payload st1)
         else (None,
               payload\<lparr>proxy_note :=
                 Some ''This is likely a temporary error with the API. Try again in a few seconds.''\<rparr>,
               st))"

definition handleAzureRateLimitError ::
  "QueueConfig \<Rightarrow> nat \<Rightarrow> bool \<Rightarrow> Request \<Rightarrow> ProxiedErrorPayload \<Rightarrow> ProxyState \<Rightarrow> HandlerResult" where
  "handleAzureRateLimitError cfg uniqueIps joinDrained r payload st =
     (if errorCode payload = Some ''429''
      then reenqueueAndThrow cfg uniqueIps joinDrained r payload (markRateLimited r st)
      else (None,
            payload\<lparr>proxy_note :=
              Some (''Unrecognized rate limit error from Azure ('' @
                    undefinedOr (errorCode payload) @ ''). Please report this.'')\<rparr>,
            st))"

definition handleGoogleAIRateLimitError ::
  "QueueConfig \<Rightarrow> nat \<Rightarrow> bool \<Rightarrow> Request \<Rightarrow> ProxiedErrorPayload \<Rightarrow> ProxyState \<Rightarrow> HandlerResult" where
  "handleGoogleAIRateLimitError cfg uniqueIps joinDrained r payload st =
     (if errorStatus payload = Some ''RESOURCE_EXHAUSTED''
      then reenqueueAndThrow cfg uniqueIps joinDrained r payload (markRateLimited r st)
      else (None,
            payload\<lparr>proxy_note :=
              Some (''Unrecognized rate limit error from Google AI ('' @
                    undefinedOr (errorStatus payload) @ ''). Please report this.'')\<rparr>,
            st))"

text \<open>
  The branch \<^verbatim>\<open>statusCode === 429\<close> of \<^verbatim>\<open>handleUpstreamErrors\<close> and the code
  after the branches: when the service's handler returns, the payload goes to the client
  with \<^verbatim>\<open>sendProxyError\<close> and an \<^verbatim>\<open>HttpError\<close> of the status is thrown.
\<close>

definition handleUpstreamErrors429 ::
  "QueueConfig \<Rightarrow> nat \<Rightarrow> bool \<Rightarrow> LLMService \<Rightarrow> Request \<Rightarrow> ProxiedErrorPayload \<Rightarrow> ProxyState
     \<Rightarrow> HandlerResult" where
  "handleUpstreamErrors429 cfg uniqueIps joinDrained svc r payload st =
     (let res =
            (case svc of
               SvcOpenAI \<Rightarrow> handleOpenAIRateLimitError cfg uniqueIps joinDrained r payload st
             | SvcAnthropic \<Rightarrow> handleAnthropicRateLimitError cfg uniqueIps joinDrained r payload st
             | SvcAws \<Rightarrow> handleAwsRateLimitError cfg uniqueIps joinDrained r payload st
             | SvcGcp \<Rightarrow> handleGcpRateLimitError cfg uniqueIps joinDrained r payload st
             | SvcAzure \<Rightarrow> handleAzureRateLimitError cfg uniqueIps joinDrained r payload st
             | SvcMistralAI \<Rightarrow> handleAzureRateLimitError cfg uniqueIps joinDrained r payload st
             | SvcGoogleAI \<Rightarrow> handleGoogleAIRateLimitError cfg uniqueIps joinDrained r payload st)
      in case res of
           (None, payload', st') \<Rightarrow> (Some (HttpError 429), payload', st')
         | (Some e, payload', st') \<Rightarrow> (Some e, payload', st'))"

text \<open>
  Which 429 payloads the handlers treat as a rate limit or throttling signal that can
  be retried, read off the branches above.
\<close>

definition isRetryableRateLimit :: "LLMService \<Rightarrow> ProxiedErrorPayload \<Rightarrow> bool" where
  "isRetryableRateLimit svc payload =
     (case svc of
        SvcAnthropic \<Rightarrow> errorType payload = Some ''rate_limit_error''
      | SvcAws \<Rightarrow> errorType payload = Some ''ThrottlingException''
      | SvcOpenAI \<Rightarrow>
          (errorType payload = Some ''requests'' \<or> errorType payload = Some ''tokens'') \<and>
          \<not> (case errorMessage payload of
                Some msg \<Rightarrow> str_includes msg ''on requests per day''
              | None \<Rightarrow> False)
      | SvcGcp \<Rightarrow> errorType payload = Some ''RESOURCE_EXHAUSTED''
      | SvcAzure \<Rightarrow> errorCode payload = Some ''429''
      | SvcMistralAI \<Rightarrow> errorCode payload = Some ''429''
      | SvcGoogleAI \<Rightarrow> errorStatus payload = Some ''RESOURCE_EXHAUSTED'')"

text \<open>
  \<^verbatim>\<open>handleStreamedResponse\<close>. The SSE pipeline and the event aggregator are not part
  of this development: \<open>outcome\<close> tells whether \<^verbatim>\<open>pipelineAsync\<close> resolved or
  with which class of error it rejected, and \<open>hasEvents\<close> is
  \<^verbatim>\<open>aggregator.hasEvents()\<close>.
\<close>

datatype PipelineError = RetryableStreamError | BadRequestStreamError | OtherStreamError

datatype PipelineOutcome = StreamFinished | StreamFailed PipelineError

text \<open>What the handler throws: the error of its guard, the error the pipeline rejected
  with (\<open>StreamRethrown RetryableStreamError\<close> is an instance of
  \<^verbatim>\<open>RetryableError\<close>), or what \<^verbatim>\<open>reenqueueRequest\<close> threw inside the
  \<^verbatim>\<open>catch\<close> block.\<close>

datatype StreamThrown =
  NonStreamingRequestError | StreamRethrown PipelineError | StreamEnqueueError queue_error

text \<open>How the handler ends: with the aggregated response, by handing the response to
  \<^verbatim>\<open>handleBlockingResponse\<close>, or by throwing.\<close>

datatype StreamedResult = FinalResponse | BlockingFallback | StreamThrew StreamThrown

text \<open>The result, the request as the handler leaves it, and the state.\<close>

definition handleStreamedResponse ::
  "QueueConfig \<Rightarrow> nat \<Rightarrow> bool \<Rightarrow> int \<Rightarrow> PipelineOutcome \<Rightarrow> bool \<Rightarrow> Request \<Rightarrow> ProxyState
     \<Rightarrow> StreamedResult \<times> Request \<times> ProxyState" where
  "handleStreamedResponse cfg uniqueIps joinDrained statusCode outcome hasEvents r st =
     (if \<not> isStreaming r then (StreamThrew NonStreamingRequestError, r, st)
      else if statusCode > 201 then (BlockingFallback, r\<lparr>isStreaming := False\<rparr>, st)
      else
        let r1 = (if \<not> headersSent r then r\<lparr>headersSent := True\<rparr> else r)
        in case outcome of
             StreamFinished \<Rightarrow> (FinalResponse, r1, st)
           | StreamFailed err \<Rightarrow>
               (case err of
                  RetryableStreamError \<Rightarrow>
                    (let st1 = markRateLimited r1 st
                     in case reenqueueRequest cfg uniqueIps joinDrained r1 (psQueue st1) of
                          Inl e \<Rightarrow> (StreamThrew (StreamEnqueueError e), r1, st1)
                        | Inr q' \<Rightarrow>
                            (if hasEvents then FinalResponse
                             else StreamThrew (StreamRethrown err),
                             r1, st1\<lparr>psQueue := q'\<rparr>))
                | BadRequestStreamError \<Rightarrow>
                    (if hasEvents then FinalResponse else StreamThrew (StreamRethrown err),
                     r1, st)
                | OtherStreamError \<Rightarrow>
                    (if hasEvents then FinalResponse else StreamThrew (StreamRethrown err),
                     r1, st)))"


section \<open>Comparators and sample data\<close>

text \<open>
  A consistent comparator in the sense of ECMAScript: the sign flips when the arguments
  are swapped, and ``not greater'' is transitive.
\<close>

definition consistentComparator :: "('a \<Rightarrow> 'a \<Rightarrow> int) \<Rightarrow> bool" where
  "consistentComparator c \<longleftrightarrow>
     (\<forall>a b. (c a b < 0) = (0 < c b a)) \<and>
     (\<forall>a b d. c a b \<le> 0 \<and> c b d \<le> 0 \<longrightarrow> c a d \<le> 0)"

text \<open>
  An OpenAI key that \<^verbatim>\<open>updateRateLimits\<close> once gave a token reset of 60 s and
  that \<^verbatim>\<open>markRateLimited\<close> then marked at time 1000: \<^verbatim>\<open>rateLimitedAt\<close> is
  1000, \<^verbatim>\<open>rateLimitRequestsReset\<close> is 10000 and \<^verbatim>\<open>rateLimitedUntil\<close> is
  11000.
\<close>

definition openaiKeyStale :: OpenAIKey where
  "openaiKeyStale =
     \<lparr>key = ''sk-aaaa'', service = ''openai'',
      modelFamilies = [''turbo'', ''gpt4'', ''gpt4-turbo'', ''gpt4o''],
      isDisabled = False, isRevoked = False, promptCount = 0, lastUsed = 0,
      lastChecked = 0, hash = ''oai-aaaaaaaa'', rateLimitedAt = 1000,
      rateLimitedUntil = 11000, organizationId = None, isTrial = False,
      isOverQuota = False, rateLimitRequestsReset = 10000, rateLimitTokensReset = 60000,
      modelIds = []\<rparr>"

text \<open>A fresh OpenAI key as the constructor of the provider builds it, and a trial key.\<close>

definition openaiKeyFresh :: OpenAIKey where
  "openaiKeyFresh =
     \<lparr>key = ''sk-bbbb'', service = ''openai'',
      modelFamilies = [''turbo'', ''gpt4'', ''gpt4-turbo'', ''gpt4o''],
      isDisabled = False, isRevoked = False, promptCount = 0, lastUsed = 0,
      lastChecked = 0, hash = ''oai-bbbbbbbb'', rateLimitedAt = 0,
      rateLimitedUntil = 0, organizationId = None, isTrial = False,
      isOverQuota = False, rateLimitRequestsReset = 0, rateLimitTokensReset = 0,
      modelIds = []\<rparr>"

definition openaiKeyTrial :: OpenAIKey where
  "openaiKeyTrial = openaiKeyFresh\<lparr>key := ''sk-cccc'', hash := ''oai-cccccccc'', isTrial := True\<rparr>"

text \<open>An AWS key as the constructor builds it, and one that is locked out until 20000.\<close>

definition awsKeyFresh :: AwsBedrockKey where
  "awsKeyFresh =
     \<lparr>key = ''AKIA:secret:us-east-1'', service = ''aws'', modelFamilies = [''aws-claude''],
      isDisabled = False, isRevoked = False, promptCount = 0, lastUsed = 0,
      lastChecked = 0, hash = ''aws-aaaaaaaa'', rateLimitedAt = 0, rateLimitedUntil = 0,
      awsLoggingStatus = LoggingUnknown,
      awsModelIds = [''anthropic.claude-3-sonnet-20240229-v1:0''],
      inferenceProfileIds = []\<rparr>"

definition awsKeyLimited :: AwsBedrockKey where
  "awsKeyLimited =
     awsKeyFresh\<lparr>key := ''AKIB:secret:us-east-1'', hash := ''aws-bbbbbbbb'',
                   rateLimitedAt := 15000, rateLimitedUntil := 20000\<rparr>"

text \<open>Two keys locked out until the same instant; the first was used later.\<close>

definition limitedKeyA :: Key where
  "limitedKeyA =
     \<lparr>key = ''key-a'', service = ''anthropic'', modelFamilies = [''claude''],
      isDisabled = False, isRevoked = False, promptCount = 0, lastUsed = 500,
      lastChecked = 0, hash = ''ant-aaaaaaaa'', rateLimitedAt = 900,
      rateLimitedUntil = 2900\<rparr>"

definition limitedKeyB :: Key where
  "limitedKeyB = limitedKeyA\<lparr>key := ''key-b'', hash := ''ant-bbbbbbbb'', lastUsed := 100\<rparr>"


text \<open>An OpenAI key for which the checker has recorded the snapshots it serves.\<close>

definition openaiKeyChecked :: OpenAIKey where
  "openaiKeyChecked =
     openaiKeyFresh\<lparr>key := ''sk-dddd'', hash := ''oai-dddddddd'',
                     modelIds := [''gpt-4'', ''gpt-4o'']\<rparr>"


text \<open>Sample requests: \<open>requestA\<close> and \<open>requestB\<close> come from the same user token,
  \<open>requestAborted\<close> is \<open>requestB\<close> after its socket was destroyed, and
  \<open>requestC\<close> comes from another user and is bound for another family.\<close>

definition requestA :: Request where
  "requestA =
     \<lparr>reqId = ''req-1'', userToken = Some ''user-a'', risuToken = None, ip = ''10.0.0.1'',
      socketDestroyed = False, writableEnded = False, headersSent = False,
      isStreaming = False, inboundApi = AnthropicChat, outboundApi = AnthropicChat,
      reqService = SvcAnthropic,
      modelFamily = ''claude'', startTime = 1000, queueOutTime = 0, retryCount = 0,
      promptTokens = Some 200, outputTokens = Some 50,
      headers = [''host'' \<mapsto> ''proxy.example'', ''content-type'' \<mapsto> ''application/json''],
      url = ''/v1/messages?beta=true'',
      body = Json \<lparr>model = Some ''claude-3-5-sonnet-20240620'',
                    messages = Some [\<lparr>role = ''user'', content = ''hi'', msgPrefix = None\<rparr>],
                    prompt = None, stream = False\<rparr>,
      reqKey = None, signedRequest = None\<rparr>"

definition requestB :: Request where
  "requestB = requestA\<lparr>reqId := ''req-2'', startTime := 2000, promptTokens := Some 10\<rparr>"

definition requestAborted :: Request where
  "requestAborted = requestB\<lparr>socketDestroyed := True\<rparr>"

definition requestC :: Request where
  "requestC =
     requestA\<lparr>reqId := ''req-3'', userToken := Some ''user-c'', ip := ''10.0.0.3'',
               inboundApi := OpenAI, outboundApi := OpenAI, reqService := SvcOpenAI,
               modelFamily := ''gpt4o'',
               startTime := 1500\<rparr>"

text \<open>The queue's constants at their defaults (\<^verbatim>\<open>USER_CONCURRENCY_LIMIT\<close> 1,
  \<^verbatim>\<open>LOAD_THRESHOLD\<close> 150, \<^verbatim>\<open>TOKENS_PUNISHMENT_FACTOR\<close> 0) and with a
  punishment factor of 10.\<close>

definition defaultQueueConfig :: QueueConfig where
  "defaultQueueConfig =
     \<lparr>USER_CONCURRENCY_LIMIT = 1, LOAD_THRESHOLD = 150, tokensPunishmentFactor = JsFinite 0 0\<rparr>"

definition punishingQueueConfig :: QueueConfig where
  "punishingQueueConfig = defaultQueueConfig\<lparr>tokensPunishmentFactor := JsFinite 10 0\<rparr>"

text \<open>
  A punishment factor of \<open>2 ^ -24\<close> and two requests that joined the queue in the same
  millisecond, one with 10 tokens and one with 1000.
\<close>

definition tinyFactorQueueConfig :: QueueConfig where
  "tinyFactorQueueConfig = defaultQueueConfig\<lparr>tokensPunishmentFactor := JsFinite 1 (- 24)\<rparr>"

definition requestLight :: Request where
  "requestLight =
     requestA\<lparr>reqId := ''req-4'', userToken := Some ''user-d'', startTime := 1700000000000,
               promptTokens := Some 10, outputTokens := None\<rparr>"

definition requestHeavy :: Request where
  "requestHeavy =
     requestA\<lparr>reqId := ''req-5'', userToken := Some ''user-e'', startTime := 1700000000000,
               promptTokens := Some 900, outputTokens := Some 100\<rparr>"






definition awsMistralChatRequest :: Request where
  "awsMistralChatRequest =
     requestA\<lparr>inboundApi := MistralAI, outboundApi := MistralAI, reqService := SvcAws,
               modelFamily := ''aws-mistral-large'',
               body := Json \<lparr>model = Some ''mistral.mistral-large-2407-v1:0'',
                             messages = Some [\<lparr>role = ''user'', content = ''hi'',
                                               msgPrefix = None\<rparr>,
                                             \<lparr>role = ''assistant'', content = ''Sure'',
                                               msgPrefix = None\<rparr>],
                             prompt = None, stream = False\<rparr>\<rparr>"

text \<open>A table of validators whose entries for the two Mistral formats are the schemas of
  \<^verbatim>\<open>shared/api-schemas/mistral-ai.ts\<close>; the other entries accept every body.\<close>

definition mistralValidators :: "APIFormat \<Rightarrow> Body \<Rightarrow> transform_error + Body" where
  "mistralValidators api b =
     (if api = MistralAI then (if MistralAIV1ChatCompletionsSchema b then Inr b else Inl ZodError)
      else if api = MistralText
        then (if MistralAIV1TextCompletionsSchema b then Inr b else Inl ZodError)
      else Inr b)"

text \<open>A table of transformers that holds \<^verbatim>\<open>transformMistralChatToText\<close> for Mistral
  chat to Mistral text and nothing else.\<close>

definition mistralTransformers ::
  "(MistralAIChatMessage list \<Rightarrow> string) \<Rightarrow> APIFormat \<Rightarrow> APIFormat
     \<Rightarrow> (Request \<Rightarrow> transform_error + Body) option" where
  "mistralTransformers renderMistralPrompt inApi outApi =
     (if inApi = MistralAI \<and> outApi = MistralText
      then Some (transformMistralChatToText renderMistralPrompt) else None)"

text \<open>A request that arrived with both a \<^verbatim>\<open>Referrer\<close> and a \<^verbatim>\<open>Referer\<close>
  header.\<close>

definition requestWithReferrers :: Request where
  "requestWithReferrers =
     requestA\<lparr>headers := [''host'' \<mapsto> ''proxy.example'',
                           ''referrer'' \<mapsto> ''https://a.example/'',
                           ''referer'' \<mapsto> ''https://b.example/'']\<rparr>"

text \<open>\<open>requestA\<close> after it was dequeued and given a key, and the Anthropic payload of
  a rate-limit error.\<close>

definition requestInFlight :: Request where
  "requestInFlight = requestA\<lparr>queueOutTime := 1500, reqKey := Some limitedKeyA\<rparr>"

text \<open>A streaming request in flight: its headers went out with the join message of the
  queue.\<close>

definition requestStreamingInFlight :: Request where
  "requestStreamingInFlight = requestInFlight\<lparr>isStreaming := True, headersSent := True\<rparr>"

definition rateLimitPayload :: ProxiedErrorPayload where
  "rateLimitPayload =
     \<lparr>errorCode = None, errorType = Some ''rate_limit_error'',
      errorMessage = Some ''Number of requests has exceeded your rate limit'',
      errorStatus = None, proxy_note = None\<rparr>"

text \<open>The estimator after \<^verbatim>\<open>start()\<close> with one completed wait of one second
  on record for \<^verbatim>\<open>claude\<close>.\<close>

definition estimatorWithOneSample :: Estimator where
  "estimatorWithOneSample =
     startedEstimator ''claude'' [\<lparr>wtPartition = ''claude'', wtStart = 0, wtEnd = 1000\<rparr>]"

text \<open>The same sample on record while both averages are still high from earlier load.\<close>

definition estimatorAfterLoad :: Estimator where
  "estimatorAfterLoad =
     \<lparr>waitTimes = [\<lparr>wtPartition = ''claude'', wtStart = 0, wtEnd = 1000\<rparr>],
      historicalEmas = [''claude'' \<mapsto> 4000],
      currentEmas = [''claude'' \<mapsto> 1000],
      estimates = [''claude'' \<mapsto> 2600]\<rparr>"







text \<open>
  The state of a request that \<^verbatim>\<open>revert\<close> is to restore: its headers, body, path and
  signed request.
\<close>

definition sameObservableState :: "Request \<Rightarrow> Request \<Rightarrow> bool" where
  "sameObservableState r1 r2 \<longleftrightarrow>
     headers r1 = headers r2 \<and> body r1 = body r2 \<and> req_path r1 = req_path r2 \<and>
     signedRequest r1 = signedRequest r2"

text \<open>The header a call names, if it names one, and whether it is one of the two names
  that \<^verbatim>\<open>req.get\<close> treats as interchangeable.\<close>

fun callHeader :: "ManagerCall \<Rightarrow> string option" where
  "callHeader (SetHeader name v) = Some name"
| "callHeader (RemoveHeader name) = Some name"
| "callHeader c = None"

definition namesReferrer :: "ManagerCall \<Rightarrow> bool" where
  "namesReferrer c =
     (case callHeader c of
        Some name \<Rightarrow> toLowerCase name = ''referer'' \<or> toLowerCase name = ''referrer''
      | None \<Rightarrow> False)"


text \<open>The real number a finite JavaScript number stands for.\<close>

definition jsReal :: "JsNumber \<Rightarrow> real" where
  "jsReal a = (case a of JsFinite m e \<Rightarrow> real_of_int m * 2 powi e | _ \<Rightarrow> 0)"

text \<open>The JavaScript number that holds the integer \<open>v\<close>, for \<open>v\<close> of at most 53 bits,
  as \<open>roundToDouble\<close> returns it: 53 significant bits.\<close>

definition jsInt :: "int \<Rightarrow> JsNumber" where
  "jsInt v =
     (if v = 0 then JsFinite 0 0
      else JsFinite (v * 2 ^ (53 - bitLength (nat \<bar>v\<bar>))) (int (bitLength (nat \<bar>v\<bar>)) - 53))"


section \<open>A call of \<^verbatim>\<open>enqueue\<close> that is not interrupted\<close>

lemma enqueue_unfold:
  "enqueue cfg uniqueIps joinDrained r queue =
     (if socketDestroyed r \<or> writableEnded r then Inl AbortedRequestError
      else
        let enqueuedRequestCount = length (filter (sharesIdentifierWith r) queue)
        in if int enqueuedRequestCount \<ge> USER_CONCURRENCY_LIMIT cfg
           then Inl TooManyRequestsError
           else if bodyStream (body r) \<or> isStreaming r
             then (if \<not> headersSent r
                   then (if joinDrained
                         then Inr (queue @ [r\<lparr>headersSent := True, queueOutTime := 0\<rparr>])
                         else Inl UnresponsiveClientError)
                   else Inr (queue @ [r\<lparr>queueOutTime := 0\<rparr>]))
           else if real (getProxyLoad uniqueIps queue) > LOAD_THRESHOLD cfg
             then Inl BadRequestError
           else Inr (queue @ [r\<lparr>queueOutTime := 0\<rparr>]))"
  by (simp add: enqueue_def enqueueBegin_def enqueueResume_def Let_def)

lemmas request_examples =
  requestA_def requestB_def requestC_def requestAborted_def
  defaultQueueConfig_def punishingQueueConfig_def


section \<open>Lockout periods (C3)\<close>

lemma math_min_Min: "xs \<noteq> [] \<Longrightarrow> math_min xs = Min (set xs)"
proof (induction xs rule: math_min.induct)
  case (1 x) then show ?case by simp
next
  case (2 x y ys)
  have "Min (set (x # y # ys)) = min x (Min (set (y # ys)))"
    by (subst list.simps(15), rule Min_insert) auto
  with 2 show ?case by simp
next
  case 3 then show ?case by simp
qed

lemma filter_all_length:
  "\<not> length (filter P xs) < length xs \<longleftrightarrow> (\<forall>x\<in>set xs. P x)"
proof
  assume "\<not> length (filter P xs) < length xs"
  then have "length (filter P xs) = length xs"
    using length_filter_le[of P xs] by simp
  then show "\<forall>x\<in>set xs. P x" by (metis filter_id_conv length_filter_less less_irrefl)
next
  assume "\<forall>x\<in>set xs. P x"
  then have "filter P xs = xs" by (simp add: filter_id_conv)
  then show "\<not> length (filter P xs) < length xs" by simp
qed

lemma lockout_core:
  fixes e :: "'k \<Rightarrow> int"
  assumes L: "L = (let activeKeys = filter P keys
                   in if length activeKeys = 0 then 0
                      else if length (filter (\<lambda>k. now < e k) activeKeys) < length activeKeys then 0
                      else math_min (map (\<lambda>k. e k - now) activeKeys))"
  shows "(L = 0 \<longleftrightarrow> ({k \<in> set keys. P k} = {} \<or> (\<exists>k \<in> set keys. P k \<and> e k \<le> now)))
         \<and> (L \<noteq> 0 \<longrightarrow> L = Min ((\<lambda>k. e k - now) ` {k \<in> set keys. P k}))"
proof -
  let ?act = "filter P keys"
  let ?A = "{k \<in> set keys. P k}"
  have setA: "set ?act = ?A" by auto
  show ?thesis
  proof (cases "?act = []")
    case True
    then have "?A = {}" using setA by (metis set_empty)
    with True L show ?thesis by simp
  next
    case ne: False
    then have Ane: "?A \<noteq> {}" using setA by (metis set_empty)
    show ?thesis
    proof (cases "\<forall>k\<in>?A. now < e k")
      case True
      then have all: "\<not> length (filter (\<lambda>k. now < e k) ?act) < length ?act"
        by (subst filter_all_length) (use True in auto)
      have "map (\<lambda>k. e k - now) ?act \<noteq> []" using ne by simp
      then have "math_min (map (\<lambda>k. e k - now) ?act) = Min (set (map (\<lambda>k. e k - now) ?act))"
        by (rule math_min_Min)
      also have "set (map (\<lambda>k. e k - now) ?act) = (\<lambda>k. e k - now) ` ?A" by auto
      finally have val: "L = Min ((\<lambda>k. e k - now) ` ?A)"
        using L ne all by (simp add: Let_def)
      have fin: "finite ((\<lambda>k. e k - now) ` ?A)" by simp
      have "Min ((\<lambda>k. e k - now) ` ?A) \<in> (\<lambda>k. e k - now) ` ?A"
        using Ane fin by (intro Min_in) auto
      then have pos: "0 < Min ((\<lambda>k. e k - now) ` ?A)" using True by auto
      then have "L \<noteq> 0" using val by simp
      moreover have "\<not> (\<exists>k \<in> set keys. P k \<and> e k \<le> now)" using True by (auto simp: not_le)
      ultimately show ?thesis using val Ane by blast
    next
      case False
      then have some: "length (filter (\<lambda>k. now < e k) ?act) < length ?act"
        using filter_all_length[of "\<lambda>k. now < e k" ?act] by auto
      have "L = 0" using L ne some by (simp add: Let_def)
      moreover from False have "\<exists>k \<in> set keys. P k \<and> e k \<le> now" by (auto simp: not_less)
      ultimately show ?thesis by simp
    qed
  qed
qed

text \<open>
  Claim C3, as the code has it. A lockout period is 0 exactly when no enabled key serves
  the family or some enabled key of the family is past the end of its window, and is
  otherwise the least remaining time over the enabled keys of the family. For the
  providers built on \<^verbatim>\<open>createGenericGetLockoutPeriod\<close> the window of a key ends at
  \<^verbatim>\<open>rateLimitedUntil\<close>; for the OpenAI provider it ends at
  \<^verbatim>\<open>rateLimitedAt + min(20000, max(rateLimitRequestsReset, rateLimitTokensReset))\<close>.
\<close>

theorem lockout_period_characterisation:
  fixes keys :: "'a Key_scheme list" and okeys :: "'b OpenAIKey_scheme list"
  shows
  "(createGenericGetLockoutPeriod keys now (Some f) = 0 \<longleftrightarrow>
      ({k \<in> set keys. \<not> isDisabled k \<and> f \<in> set (modelFamilies k)} = {} \<or>
       (\<exists>k \<in> set keys. (\<not> isDisabled k \<and> f \<in> set (modelFamilies k)) \<and> rateLimitedUntil k \<le> now)))
   \<and> (createGenericGetLockoutPeriod keys now (Some f) \<noteq> 0 \<longrightarrow>
        createGenericGetLockoutPeriod keys now (Some f)
          = Min ((\<lambda>k. rateLimitedUntil k - now) `
                   {k \<in> set keys. \<not> isDisabled k \<and> f \<in> set (modelFamilies k)}))
   \<and> (openaiGetLockoutPeriod okeys onow ofam = 0 \<longleftrightarrow>
      ({k \<in> set okeys. \<not> isDisabled k \<and> ofam \<in> set (modelFamilies k)} = {} \<or>
       (\<exists>k \<in> set okeys. (\<not> isDisabled k \<and> ofam \<in> set (modelFamilies k)) \<and> openaiWindowEnd k \<le> onow)))
   \<and> (openaiGetLockoutPeriod okeys onow ofam \<noteq> 0 \<longrightarrow>
        openaiGetLockoutPeriod okeys onow ofam
          = Min ((\<lambda>k. openaiWindowEnd k - onow) `
                   {k \<in> set okeys. \<not> isDisabled k \<and> ofam \<in> set (modelFamilies k)}))"
proof -
  have g: "createGenericGetLockoutPeriod keys now (Some f) =
        (let activeKeys = filter (\<lambda>k. \<not> isDisabled k \<and> f \<in> set (modelFamilies k)) keys
         in if length activeKeys = 0 then 0
            else if length (filter (\<lambda>k. now < rateLimitedUntil k) activeKeys) < length activeKeys then 0
            else math_min (map (\<lambda>k. rateLimitedUntil k - now) activeKeys))"
    by (simp add: createGenericGetLockoutPeriod_def Let_def)
  have o: "openaiGetLockoutPeriod okeys onow ofam =
        (let activeKeys = filter (\<lambda>k. \<not> isDisabled k \<and> ofam \<in> set (modelFamilies k)) okeys
         in if length activeKeys = 0 then 0
            else if length (filter (\<lambda>k. onow < openaiWindowEnd k) activeKeys) < length activeKeys then 0
            else math_min (map (\<lambda>k. openaiWindowEnd k - onow) activeKeys))"
    by (simp add: openaiGetLockoutPeriod_def Let_def)
  from lockout_core[OF g] lockout_core[OF o] show ?thesis by blast
qed

theorem lockout_period_characterisation_witness:
  "createGenericGetLockoutPeriod [awsKeyLimited] 16000 (Some ''aws-claude'') = 4000 \<and>
   Min ((\<lambda>k. rateLimitedUntil k - 16000) `
          {k \<in> set [awsKeyLimited]. \<not> isDisabled k \<and> ''aws-claude'' \<in> set (modelFamilies k)})
     = 4000 \<and>
   openaiGetLockoutPeriod [openaiKeyStale] 16000 ''gpt4'' = 5000 \<and>
   Min ((\<lambda>k. openaiWindowEnd k - 16000) `
          {k \<in> set [openaiKeyStale]. \<not> isDisabled k \<and> ''gpt4'' \<in> set (modelFamilies k)})
     = 5000"
proof -
  have g: "createGenericGetLockoutPeriod [awsKeyLimited] 16000 (Some ''aws-claude'') = 4000"
    by (simp add: createGenericGetLockoutPeriod_def awsKeyLimited_def awsKeyFresh_def)
  have o: "openaiGetLockoutPeriod [openaiKeyStale] 16000 ''gpt4'' = 5000"
    by (simp add: openaiGetLockoutPeriod_def openaiWindowEnd_def openaiKeyStale_def)
  from lockout_period_characterisation
         [of "[awsKeyLimited]" 16000 "''aws-claude''" "[openaiKeyStale]" 16000 "''gpt4''"] g o
  show ?thesis by simp
qed

text \<open>
  The statement of C3 for every provider fails on the OpenAI provider: at time 16000 the
  enabled key \<open>openaiKeyStale\<close> serves \<^verbatim>\<open>gpt4\<close> and its
  \<^verbatim>\<open>rateLimitedUntil\<close> (11000) has passed, yet the lockout period is 5000.
\<close>

theorem openai_lockout_counterexample:
  "\<not> isDisabled openaiKeyStale \<and> ''gpt4'' \<in> set (modelFamilies openaiKeyStale) \<and>
   rateLimitedUntil openaiKeyStale \<le> 16000 \<and>
   openaiGetLockoutPeriod [openaiKeyStale] 16000 ''gpt4'' = 5000"
  by (simp add: openaiGetLockoutPeriod_def openaiWindowEnd_def openaiKeyStale_def)


section \<open>The key prioritizer (C7)\<close>

lemma mset_insert_by: "mset (insert_by cmp x ys) = add_mset x (mset ys)"
  by (induction ys) auto

lemma mset_array_sort: "mset (array_sort cmp xs) = mset xs"
  unfolding array_sort_def by (induction xs) (auto simp: mset_insert_by)

lemma set_insert_by: "set (insert_by cmp x ys) = insert x (set ys)"
  by (induction ys) auto

lemma sorted_insert_by:
  assumes total: "\<And>a b. cmp a b \<le> 0 \<or> cmp b a \<le> 0"
      and trans: "\<And>a b c. cmp a b \<le> 0 \<Longrightarrow> cmp b c \<le> 0 \<Longrightarrow> cmp a c \<le> 0"
  shows "sorted_wrt (\<lambda>a b. cmp a b \<le> 0) ys
         \<Longrightarrow> sorted_wrt (\<lambda>a b. cmp a b \<le> 0) (insert_by cmp x ys)"
proof (induction ys)
  case Nil then show ?case by simp
next
  case (Cons y ys)
  show ?case
  proof (cases "cmp x y \<le> 0")
    case True
    then have "\<forall>z\<in>set ys. cmp x z \<le> 0" using Cons.prems trans by auto
    with True Cons.prems show ?thesis by simp
  next
    case False
    then have yx: "cmp y x \<le> 0" using total[of x y] by simp
    have "sorted_wrt (\<lambda>a b. cmp a b \<le> 0) (insert_by cmp x ys)"
      using Cons by simp
    moreover have "\<forall>z\<in>set (insert_by cmp x ys). cmp y z \<le> 0"
      using Cons.prems yx by (auto simp: set_insert_by)
    ultimately show ?thesis using False by simp
  qed
qed

lemma sorted_array_sort:
  assumes total: "\<And>a b. cmp a b \<le> 0 \<or> cmp b a \<le> 0"
      and trans: "\<And>a b c. cmp a b \<le> 0 \<Longrightarrow> cmp b c \<le> 0 \<Longrightarrow> cmp a c \<le> 0"
  shows "sorted_wrt (\<lambda>a b. cmp a b \<le> 0) (array_sort cmp xs)"
  unfolding array_sort_def
  by (induction xs) (auto intro: sorted_insert_by[OF total trans])

lemma filter_insert_by_stable:
  assumes tie: "\<And>y. P x \<Longrightarrow> P y \<Longrightarrow> cmp x y \<le> 0"
  shows "filter P (insert_by cmp x ys) = (if P x then x # filter P ys else filter P ys)"
  using tie by (induction ys) auto

lemma filter_array_sort_stable:
  assumes tie: "\<And>x y. P x \<Longrightarrow> P y \<Longrightarrow> cmp x y \<le> 0"
  shows "filter P (array_sort cmp xs) = filter P xs"
  unfolding array_sort_def
  by (induction xs) (auto simp: filter_insert_by_stable tie)

lemma keyComparator_le_iff:
  "keyComparator now custom a b \<le> 0 \<longleftrightarrow>
     (if now < rateLimitedUntil a
      then now < rateLimitedUntil b \<and> rateLimitedUntil a \<le> rateLimitedUntil b
      else now < rateLimitedUntil b \<or>
           (case custom of
              None \<Rightarrow> lastUsed a \<le> lastUsed b
            | Some c \<Rightarrow> c a b < 0 \<or> (c a b = 0 \<and> lastUsed a \<le> lastUsed b)))"
proof (cases custom)
  case None
  then show ?thesis by (simp add: keyComparator_def Let_def)
next
  case (Some c)
  have "c a b \<noteq> 0 \<Longrightarrow> (c a b \<le> 0) = (c a b < 0)" by linarith
  with Some show ?thesis by (simp add: keyComparator_def Let_def)
qed

lemma consistent_flip: "consistentComparator c \<Longrightarrow> (c a b < 0) = (0 < c b a)"
  unfolding consistentComparator_def by blast

lemma consistent_trans:
  "consistentComparator c \<Longrightarrow> c a b \<le> 0 \<Longrightarrow> c b d \<le> 0 \<Longrightarrow> c a d \<le> 0"
  unfolding consistentComparator_def by blast

lemma consistent_zero:
  assumes cc: "consistentComparator c" and z: "c a b = 0"
  shows "c b a = 0"
proof -
  have "\<not> c b a < 0" using consistent_flip[OF cc, of b a] z by simp
  moreover have "\<not> 0 < c b a" using consistent_flip[OF cc, of a b] z by simp
  ultimately show ?thesis by linarith
qed

lemma consistent_strict_trans1:
  assumes cc: "consistentComparator c" and ab: "c a b < 0" and bd: "c b d \<le> 0"
  shows "c a d < 0"
proof (rule ccontr)
  assume n: "\<not> c a d < 0"
  have "c a b \<le> 0" using ab by simp
  then have "c a d \<le> 0" using consistent_trans[OF cc _ bd] by blast
  with n have ad: "c a d = 0" by simp
  then have da: "c d a = 0" using consistent_zero[OF cc] by blast
  then have "c d a \<le> 0" by simp
  then have "c b a \<le> 0" using consistent_trans[OF cc bd] by blast
  moreover have "0 < c b a" using consistent_flip[OF cc, of a b] ab by simp
  ultimately show False by simp
qed

lemma consistent_strict_trans2:
  assumes cc: "consistentComparator c" and ab: "c a b \<le> 0" and bd: "c b d < 0"
  shows "c a d < 0"
proof (rule ccontr)
  assume n: "\<not> c a d < 0"
  have "c b d \<le> 0" using bd by simp
  then have "c a d \<le> 0" using consistent_trans[OF cc ab] by blast
  with n have ad: "c a d = 0" by simp
  then have da: "c d a = 0" using consistent_zero[OF cc] by blast
  then have "c d a \<le> 0" by simp
  then have "c d b \<le> 0" using consistent_trans[OF cc _ ab] by blast
  moreover have "0 < c d b" using consistent_flip[OF cc, of b d] bd by simp
  ultimately show False by simp
qed

lemma consistent_zero_trans:
  assumes cc: "consistentComparator c" and ab: "c a b = 0" and bd: "c b d = 0"
  shows "c a d = 0"
proof -
  have "c a d \<le> 0" using consistent_trans[OF cc, of a b d] ab bd by simp
  moreover have "c d a \<le> 0"
    using consistent_trans[OF cc, of d b a] consistent_zero[OF cc ab] consistent_zero[OF cc bd]
    by simp
  moreover have "(c a d < 0) = (0 < c d a)" by (rule consistent_flip[OF cc])
  ultimately show ?thesis by linarith
qed

lemma tie_total:
  assumes "case custom of None \<Rightarrow> True | Some c \<Rightarrow> consistentComparator c"
  shows "(case custom of None \<Rightarrow> lastUsed a \<le> lastUsed b
          | Some c \<Rightarrow> c a b < 0 \<or> (c a b = 0 \<and> lastUsed a \<le> lastUsed b))
       \<or> (case custom of None \<Rightarrow> lastUsed b \<le> (lastUsed a :: int)
          | Some c \<Rightarrow> c b a < 0 \<or> (c b a = 0 \<and> lastUsed b \<le> lastUsed a))"
proof (cases custom)
  case None then show ?thesis by auto
next
  case (Some c)
  then have cc: "consistentComparator c" using assms by simp
  consider "c a b < 0" | "c a b = 0" | "0 < c a b" by linarith
  then show ?thesis
  proof cases
    case 1 then show ?thesis using Some by simp
  next
    case 2
    then have "c b a = 0" using consistent_zero[OF cc] by blast
    with 2 Some show ?thesis by auto
  next
    case 3
    then have "c b a < 0" using consistent_flip[OF cc, of b a] by simp
    then show ?thesis using Some by simp
  qed
qed

lemma tie_trans:
  assumes cons: "case custom of None \<Rightarrow> True | Some c \<Rightarrow> consistentComparator c"
   and ab: "(case custom of None \<Rightarrow> lastUsed a \<le> lastUsed b
          | Some c \<Rightarrow> c a b < 0 \<or> (c a b = 0 \<and> lastUsed a \<le> lastUsed b))"
   and bd: "(case custom of None \<Rightarrow> lastUsed b \<le> lastUsed d
          | Some c \<Rightarrow> c b d < 0 \<or> (c b d = 0 \<and> lastUsed b \<le> lastUsed d))"
  shows "(case custom of None \<Rightarrow> lastUsed a \<le> (lastUsed d :: int)
          | Some c \<Rightarrow> c a d < 0 \<or> (c a d = 0 \<and> lastUsed a \<le> lastUsed d))"
proof (cases custom)
  case None then show ?thesis using ab bd by simp
next
  case (Some c)
  then have cc: "consistentComparator c" using cons by simp
  from ab Some have ab': "c a b < 0 \<or> (c a b = 0 \<and> lastUsed a \<le> lastUsed b)" by simp
  from bd Some have bd': "c b d < 0 \<or> (c b d = 0 \<and> lastUsed b \<le> lastUsed d)" by simp
  have "c a d < 0 \<or> (c a d = 0 \<and> lastUsed a \<le> lastUsed d)"
  proof (cases "c a b < 0")
    case True
    have "c b d \<le> 0" using bd' by auto
    then show ?thesis using consistent_strict_trans1[OF cc True] by blast
  next
    case False
    then have abz: "c a b = 0" "lastUsed a \<le> lastUsed b" using ab' by auto
    show ?thesis
    proof (cases "c b d < 0")
      case True
      have "c a b \<le> 0" using abz by simp
      then show ?thesis using consistent_strict_trans2[OF cc _ True] by blast
    next
      case False
      then have bdz: "c b d = 0" "lastUsed b \<le> lastUsed d" using bd' by auto
      have "c a d = 0" using consistent_zero_trans[OF cc abz(1) bdz(1)] .
      then show ?thesis using abz bdz by simp
    qed
  qed
  then show ?thesis using Some by simp
qed

lemma keyComparator_total:
  assumes "case custom of None \<Rightarrow> True | Some c \<Rightarrow> consistentComparator c"
  shows "keyComparator now custom a b \<le> 0 \<or> keyComparator now custom b a \<le> 0"
  unfolding keyComparator_le_iff using tie_total[OF assms, of a b]
  by (cases "now < rateLimitedUntil a"; cases "now < rateLimitedUntil b") auto

lemma keyComparator_trans:
  assumes cons: "case custom of None \<Rightarrow> True | Some c \<Rightarrow> consistentComparator c"
      and ab: "keyComparator now custom a b \<le> 0" and bd: "keyComparator now custom b d \<le> 0"
  shows "keyComparator now custom a d \<le> 0"
proof (cases "now < rateLimitedUntil a")
  case True
  then show ?thesis using ab bd unfolding keyComparator_le_iff by (auto split: if_splits)
next
  case na: False
  show ?thesis
  proof (cases "now < rateLimitedUntil d")
    case True
    then show ?thesis using na unfolding keyComparator_le_iff by simp
  next
    case nd: False
    then have nb: "\<not> now < rateLimitedUntil b" using bd unfolding keyComparator_le_iff
      by (auto split: if_splits)
    from ab na nb have 1: "(case custom of None \<Rightarrow> lastUsed a \<le> lastUsed b
          | Some c \<Rightarrow> c a b < 0 \<or> (c a b = 0 \<and> lastUsed a \<le> lastUsed b))"
      unfolding keyComparator_le_iff by simp
    from bd nb nd have 2: "(case custom of None \<Rightarrow> lastUsed b \<le> lastUsed d
          | Some c \<Rightarrow> c b d < 0 \<or> (c b d = 0 \<and> lastUsed b \<le> lastUsed d))"
      unfolding keyComparator_le_iff by simp
    from tie_trans[OF cons 1 2] show ?thesis using na nd unfolding keyComparator_le_iff by simp
  qed
qed

text \<open>
  Claim C7, as the code has it. For a tiebreaker that is a consistent comparator (or
  none), \<^verbatim>\<open>prioritizeKeys\<close> returns a rearrangement of its input in which, for
  any two positions \<open>i < j\<close>: a rate-limited key is never in front of one that is not;
  of two rate-limited keys the one in front has the earlier (or the same)
  \<^verbatim>\<open>rateLimitedUntil\<close>; of two keys that are not rate-limited the one in front is
  not behind by the tiebreaker and, when the tiebreaker ties (or is absent), has the
  smaller (or the same) \<^verbatim>\<open>lastUsed\<close>. Rate-limited keys with the same
  \<^verbatim>\<open>rateLimitedUntil\<close> stay in their input order: neither the tiebreaker nor
  \<^verbatim>\<open>lastUsed\<close> is applied to them.
\<close>

theorem prioritizeKeys_order:
  fixes keys :: "'a Key_scheme list"
  assumes cons: "case custom of None \<Rightarrow> True | Some c \<Rightarrow> consistentComparator c"
  shows "mset (prioritizeKeys now custom keys) = mset keys \<and>
    (\<forall>i j. i < j \<and> j < length keys \<longrightarrow>
       (let a = prioritizeKeys now custom keys ! i; b = prioritizeKeys now custom keys ! j in
          (now < rateLimitedUntil a \<longrightarrow> now < rateLimitedUntil b) \<and>
          (now < rateLimitedUntil a \<and> now < rateLimitedUntil b
             \<longrightarrow> rateLimitedUntil a \<le> rateLimitedUntil b) \<and>
          (\<not> now < rateLimitedUntil a \<and> \<not> now < rateLimitedUntil b \<longrightarrow>
             (case custom of
                Some c \<Rightarrow> c a b \<le> 0 \<and> (c a b = 0 \<longrightarrow> lastUsed a \<le> lastUsed b)
              | None \<Rightarrow> lastUsed a \<le> lastUsed b)))) \<and>
    (\<forall>u. filter (\<lambda>k. now < rateLimitedUntil k \<and> rateLimitedUntil k = u)
              (prioritizeKeys now custom keys)
         = filter (\<lambda>k. now < rateLimitedUntil k \<and> rateLimitedUntil k = u) keys)"
proof -
  let ?res = "prioritizeKeys now custom keys"
  let ?le = "\<lambda>a b. keyComparator now custom a b \<le> 0"
  have ms: "mset ?res = mset keys" by (simp add: prioritizeKeys_def mset_array_sort)
  then have len: "length ?res = length keys" by (metis size_mset)
  have srt: "sorted_wrt ?le ?res"
    unfolding prioritizeKeys_def
    by (rule sorted_array_sort) (use keyComparator_total[OF cons] keyComparator_trans[OF cons] in blast)+
  have ord: "\<And>i j. i < j \<Longrightarrow> j < length keys \<Longrightarrow> ?le (?res ! i) (?res ! j)"
    using srt len by (simp add: sorted_wrt_iff_nth_less)
  have pair: "\<And>a b. ?le a b \<Longrightarrow>
          (now < rateLimitedUntil a \<longrightarrow> now < rateLimitedUntil b) \<and>
          (now < rateLimitedUntil a \<and> now < rateLimitedUntil b
             \<longrightarrow> rateLimitedUntil a \<le> rateLimitedUntil b) \<and>
          (\<not> now < rateLimitedUntil a \<and> \<not> now < rateLimitedUntil b \<longrightarrow>
             (case custom of
                Some c \<Rightarrow> c a b \<le> 0 \<and> (c a b = 0 \<longrightarrow> lastUsed a \<le> lastUsed b)
              | None \<Rightarrow> lastUsed a \<le> lastUsed b))"
  proof -
    fix a b assume le: "?le a b"
    show "(now < rateLimitedUntil a \<longrightarrow> now < rateLimitedUntil b) \<and>
          (now < rateLimitedUntil a \<and> now < rateLimitedUntil b
             \<longrightarrow> rateLimitedUntil a \<le> rateLimitedUntil b) \<and>
          (\<not> now < rateLimitedUntil a \<and> \<not> now < rateLimitedUntil b \<longrightarrow>
             (case custom of
                Some c \<Rightarrow> c a b \<le> 0 \<and> (c a b = 0 \<longrightarrow> lastUsed a \<le> lastUsed b)
              | None \<Rightarrow> lastUsed a \<le> lastUsed b))"
      using le unfolding keyComparator_le_iff
      by (cases custom; cases "now < rateLimitedUntil a"; cases "now < rateLimitedUntil b") auto
  qed
  have stab: "\<And>u. filter (\<lambda>k. now < rateLimitedUntil k \<and> rateLimitedUntil k = u) ?res
         = filter (\<lambda>k. now < rateLimitedUntil k \<and> rateLimitedUntil k = u) keys"
    unfolding prioritizeKeys_def
    by (rule filter_array_sort_stable) (simp add: keyComparator_le_iff)
  have main: "\<forall>i j. i < j \<and> j < length keys \<longrightarrow>
       (let a = ?res ! i; b = ?res ! j in
          (now < rateLimitedUntil a \<longrightarrow> now < rateLimitedUntil b) \<and>
          (now < rateLimitedUntil a \<and> now < rateLimitedUntil b
             \<longrightarrow> rateLimitedUntil a \<le> rateLimitedUntil b) \<and>
          (\<not> now < rateLimitedUntil a \<and> \<not> now < rateLimitedUntil b \<longrightarrow>
             (case custom of
                Some c \<Rightarrow> c a b \<le> 0 \<and> (c a b = 0 \<longrightarrow> lastUsed a \<le> lastUsed b)
              | None \<Rightarrow> lastUsed a \<le> lastUsed b)))"
  proof (intro allI impI)
    fix i j assume ij: "i < j \<and> j < length keys"
    then have "?le (?res ! i) (?res ! j)" using ord by blast
    from pair[OF this] show "let a = ?res ! i; b = ?res ! j in
          (now < rateLimitedUntil a \<longrightarrow> now < rateLimitedUntil b) \<and>
          (now < rateLimitedUntil a \<and> now < rateLimitedUntil b
             \<longrightarrow> rateLimitedUntil a \<le> rateLimitedUntil b) \<and>
          (\<not> now < rateLimitedUntil a \<and> \<not> now < rateLimitedUntil b \<longrightarrow>
             (case custom of
                Some c \<Rightarrow> c a b \<le> 0 \<and> (c a b = 0 \<longrightarrow> lastUsed a \<le> lastUsed b)
              | None \<Rightarrow> lastUsed a \<le> lastUsed b))"
      unfolding Let_def .
  qed
  from ms main stab show ?thesis by blast
qed

theorem prioritizeKeys_order_witness:
  "consistentComparator (openaiTrialComparator :: OpenAIKey \<Rightarrow> OpenAIKey \<Rightarrow> int) \<and>
   mset (prioritizeKeys 1000 (Some openaiTrialComparator) [openaiKeyTrial, openaiKeyStale, openaiKeyFresh])
     = mset [openaiKeyTrial, openaiKeyStale, openaiKeyFresh] \<and>
   prioritizeKeys 1000 (Some openaiTrialComparator) [openaiKeyTrial, openaiKeyStale, openaiKeyFresh]
     = [openaiKeyFresh, openaiKeyTrial, openaiKeyStale]"
proof -
  have c: "consistentComparator (openaiTrialComparator :: OpenAIKey \<Rightarrow> OpenAIKey \<Rightarrow> int)"
    by (simp add: consistentComparator_def openaiTrialComparator_def)
  then have h: "case Some (openaiTrialComparator :: OpenAIKey \<Rightarrow> OpenAIKey \<Rightarrow> int) of
                  None \<Rightarrow> True | Some c \<Rightarrow> consistentComparator c"
    by simp
  have e: "prioritizeKeys 1000 (Some openaiTrialComparator)
             [openaiKeyTrial, openaiKeyStale, openaiKeyFresh]
           = [openaiKeyFresh, openaiKeyTrial, openaiKeyStale]"
    by (simp add: prioritizeKeys_def array_sort_def keyComparator_def openaiTrialComparator_def
          openaiKeyTrial_def openaiKeyStale_def openaiKeyFresh_def)
  from prioritizeKeys_order
         [OF h, of 1000 "[openaiKeyTrial, openaiKeyStale, openaiKeyFresh]"] c e
  show ?thesis by simp
qed

text \<open>
  The order of C7 read as one lexicographic order fails on two rate-limited keys with
  the same \<^verbatim>\<open>rateLimitedUntil\<close>: the key used less recently stays behind, with
  and without a tiebreaker that prefers it.
\<close>

theorem prioritizeKeys_tie_counterexample:
  "prioritizeKeys 1000 None [limitedKeyA, limitedKeyB] = [limitedKeyA, limitedKeyB] \<and>
   prioritizeKeys 1000 (Some (\<lambda>a b. lastUsed a - lastUsed b)) [limitedKeyA, limitedKeyB]
     = [limitedKeyA, limitedKeyB] \<and>
   1000 < rateLimitedUntil limitedKeyA \<and>
   rateLimitedUntil limitedKeyA = rateLimitedUntil limitedKeyB \<and>
   lastUsed limitedKeyB < lastUsed limitedKeyA"
  by (simp add: prioritizeKeys_def array_sort_def keyComparator_def limitedKeyA_def
        limitedKeyB_def)


section \<open>Key selection and throttling (C2, C10)\<close>

lemma set_array_sort: "set (array_sort cmp xs) = set xs"
  by (metis mset_array_sort set_mset_mset)

lemma hd_array_sort_in: "xs \<noteq> [] \<Longrightarrow> hd (array_sort cmp xs) \<in> set xs"
proof -
  assume "xs \<noteq> []"
  then have "array_sort cmp xs \<noteq> []" by (metis mset_array_sort mset_zero_iff)
  then have "hd (array_sort cmp xs) \<in> set (array_sort cmp xs)" by simp
  then show ?thesis by (simp add: set_array_sort)
qed

lemma update_first_find:
  assumes "\<And>x. P (f x) = P x"
  shows "update_first P f ks = Some ks'
         \<Longrightarrow> \<exists>p0. find P ks = Some p0 \<and> find P ks' = Some (f p0) \<and> length ks' = length ks"
proof (induction ks arbitrary: ks')
  case Nil then show ?case by simp
next
  case (Cons k ks)
  show ?case
  proof (cases "P k")
    case True
    with Cons.prems assms show ?thesis by auto
  next
    case False
    with Cons.prems obtain r where r: "update_first P f ks = Some r" "ks' = k # r" by auto
    from Cons.IH[OF r(1)] False r(2) show ?thesis by auto
  qed
qed

lemma update_first_nth:
  "update_first P f ks = Some ks' \<Longrightarrow> n < length ks
     \<Longrightarrow> ks' ! n = ks ! n \<or> ks' ! n = f (ks ! n)"
proof (induction ks arbitrary: ks' n)
  case Nil then show ?case by simp
next
  case (Cons k ks)
  show ?case
  proof (cases "P k")
    case True
    with Cons.prems show ?thesis by (cases n) auto
  next
    case False
    with Cons.prems obtain r where r: "update_first P f ks = Some r" "ks' = k # r" by auto
    show ?thesis
    proof (cases n)
      case 0 with r show ?thesis by simp
    next
      case (Suc m)
      with Cons.prems have "m < length ks" by simp
      from Cons.IH[OF r(1) this] Suc r(2) show ?thesis by simp
    qed
  qed
qed

lemma update_first_defined:
  "\<exists>k\<in>set ks. P k \<Longrightarrow> \<exists>ks'. update_first P f ks = Some ks'"
  by (induction ks) auto

lemma find_list_update:
  assumes "\<And>x. P (g x) = P x"
  shows "find P (ks[i := g (ks ! i)]) = Some q
         \<Longrightarrow> \<exists>p0. find P ks = Some p0 \<and> (q = p0 \<or> q = g p0)"
proof (induction ks arbitrary: i)
  case Nil then show ?case by simp
next
  case (Cons k ks)
  show ?case
  proof (cases i)
    case 0
    with Cons.prems assms show ?thesis by (cases "P k") auto
  next
    case (Suc m)
    show ?thesis
    proof (cases "P k")
      case True with Cons.prems Suc show ?thesis by auto
    next
      case False
      with Cons.prems Suc have "find P (ks[m := g (ks ! m)]) = Some q" by simp
      from Cons.IH[OF this] False show ?thesis by simp
    qed
  qed
qed

lemma get_core:
  fixes keys :: "'a Key_scheme list"
  assumes thr_hash: "\<And>x. hash (thr x) = hash x"
      and av: "av = filter (\<lambda>r. pred (snd r)) (enumerate 0 keys)"
      and sl: "sel = fst (hd (prioritizeRefs now custom av))"
      and k1: "keys1 = keys[sel := (keys ! sel)\<lparr>lastUsed := now\<rparr>]"
      and res: "(if length av = 0 then Inl PaymentRequiredError
                 else case update_first (\<lambda>k. hash k = hash (keys1 ! sel)) thr keys1 of
                        None \<Rightarrow> Inl TypeError
                      | Some keys2 \<Rightarrow> Inr (keys2 ! sel, keys2)) = Inr (k, keys')"
  shows "\<exists>i p0. i < length keys \<and> pred (keys ! i) \<and> length keys' = length keys \<and>
           (k = (keys ! i)\<lparr>lastUsed := now\<rparr> \<or> k = thr ((keys ! i)\<lparr>lastUsed := now\<rparr>)) \<and>
           find (\<lambda>x. hash x = hash k) keys = Some p0 \<and>
           (find (\<lambda>x. hash x = hash k) keys' = Some (thr p0) \<or>
            find (\<lambda>x. hash x = hash k) keys' = Some (thr (p0\<lparr>lastUsed := now\<rparr>)))"
proof -
  let ?P = "\<lambda>x. hash x = hash (keys1 ! sel)"
  have ne: "av \<noteq> []"
  proof
    assume "av = []"
    with res show False by simp
  qed
  then have res': "(case update_first ?P thr keys1 of
                        None \<Rightarrow> Inl TypeError
                      | Some keys2 \<Rightarrow> Inr (keys2 ! sel, keys2)) = Inr (k, keys')"
    using res by simp
  obtain keys2 where up: "update_first ?P thr keys1 = Some keys2"
    using res' by (cases "update_first ?P thr keys1") auto
  with res' have k: "k = keys2 ! sel" and k2: "keys' = keys2" by auto
  have "hd (prioritizeRefs now custom av) \<in> set av"
    unfolding prioritizeRefs_def using ne by (rule hd_array_sort_in)
  then have mem: "hd (prioritizeRefs now custom av) \<in> set (enumerate 0 keys)"
        and pr: "pred (snd (hd (prioritizeRefs now custom av)))" unfolding av by auto
  obtain i0 k0 where ik: "hd (prioritizeRefs now custom av) = (i0, k0)" by (cases "hd (prioritizeRefs now custom av)")
  with mem have "i0 < length keys" "k0 = keys ! i0" by (auto simp: in_set_enumerate_eq)
  with ik sl pr have sel: "sel < length keys" and p: "pred (keys ! sel)" by auto
  have k1sel: "keys1 ! sel = (keys ! sel)\<lparr>lastUsed := now\<rparr>" using sel k1 by simp
  have len1: "length keys1 = length keys" using k1 by simp
  have Pthr: "\<And>x. ?P (thr x) = ?P x" by (simp add: thr_hash)
  from update_first_find[of ?P thr, OF Pthr up]
  obtain p1 where p1: "find ?P keys1 = Some p1" "find ?P keys2 = Some (thr p1)"
     "length keys2 = length keys1" by blast
  have "sel < length keys1" using sel len1 by simp
  from update_first_nth[OF up this]
  have kk: "k = keys1 ! sel \<or> k = thr (keys1 ! sel)" using k by simp
  have hk1: "hash (keys1 ! sel) = hash (keys ! sel)" using k1sel by simp
  have hk: "hash k = hash (keys1 ! sel)" using kk thr_hash by auto
  have Pg: "\<And>x. ?P (x\<lparr>lastUsed := now\<rparr>) = ?P x" by simp
  have "find ?P (keys[sel := (keys ! sel)\<lparr>lastUsed := now\<rparr>]) = Some p1" using p1(1) k1 by simp
  from find_list_update[of ?P "\<lambda>x. x\<lparr>lastUsed := now\<rparr>" keys sel p1, OF Pg this]
  obtain p0 where p0: "find ?P keys = Some p0" "p1 = p0 \<or> p1 = p0\<lparr>lastUsed := now\<rparr>" by blast
  have Peq: "?P = (\<lambda>x. hash x = hash k)" using hk by simp
  have a: "k = (keys ! sel)\<lparr>lastUsed := now\<rparr> \<or> k = thr ((keys ! sel)\<lparr>lastUsed := now\<rparr>)"
    using kk k1sel by simp
  have b: "length keys' = length keys" using k2 p1(3) len1 by simp
  have c: "find (\<lambda>x. hash x = hash k) keys = Some p0" using p0(1) unfolding Peq .
  have d: "find (\<lambda>x. hash x = hash k) keys' = Some (thr p0) \<or>
            find (\<lambda>x. hash x = hash k) keys' = Some (thr (p0\<lparr>lastUsed := now\<rparr>))"
    using p1(2) p0(2) k2 unfolding Peq by auto
  from sel p a b c d show ?thesis by blast
qed

lemma get_core_defined:
  fixes keys :: "'a Key_scheme list"
  assumes av: "av = filter (\<lambda>r. pred (snd r)) (enumerate 0 keys)"
      and sl: "sel = fst (hd (prioritizeRefs now custom av))"
      and k1: "keys1 = keys[sel := (keys ! sel)\<lparr>lastUsed := now\<rparr>]"
      and ne: "av \<noteq> []"
  shows "\<exists>keys2. update_first (\<lambda>k. hash k = hash (keys1 ! sel)) thr keys1 = Some keys2"
proof -
  have "hd (prioritizeRefs now custom av) \<in> set av"
    unfolding prioritizeRefs_def using ne by (rule hd_array_sort_in)
  then have mem: "hd (prioritizeRefs now custom av) \<in> set (enumerate 0 keys)"
    unfolding av by auto
  obtain i0 k0 where ik: "hd (prioritizeRefs now custom av) = (i0, k0)"
    by (cases "hd (prioritizeRefs now custom av)")
  with mem have "i0 < length keys" by (auto simp: in_set_enumerate_eq)
  with ik sl have "sel < length keys1" using k1 by simp
  then have "keys1 ! sel \<in> set keys1" by simp
  then have "\<exists>k\<in>set keys1. hash k = hash (keys1 ! sel)" by blast
  then show ?thesis by (rule update_first_defined)
qed

lemma available_nonempty:
  "(filter (\<lambda>r. pred (snd r)) (enumerate 0 keys) \<noteq> []) = (\<exists>k\<in>set keys. pred k)"
proof -
  have "set (map snd (enumerate 0 keys)) = set keys" by (simp add: enumerate_eq_zip)
  then have "(\<exists>r\<in>set (enumerate 0 keys). pred (snd r)) = (\<exists>k\<in>set keys. pred k)"
    by (metis (no_types, lifting) image_iff set_map)
  then show ?thesis by (simp add: filter_empty_conv)
qed

lemma openaiGet_shape:
  assumes "openaiGet checkKeys now mdl keys = Inr (k, keys')"
  shows "\<exists>i p0. i < length keys \<and> openaiAvailable checkKeys mdl (keys ! i) \<and>
           length keys' = length keys \<and>
           (k = (keys ! i)\<lparr>lastUsed := now\<rparr> \<or>
            k = openaiThrottleKey now ((keys ! i)\<lparr>lastUsed := now\<rparr>)) \<and>
           find (\<lambda>x. hash x = hash k) keys = Some p0 \<and>
           (find (\<lambda>x. hash x = hash k) keys' = Some (openaiThrottleKey now p0) \<or>
            find (\<lambda>x. hash x = hash k) keys' = Some (openaiThrottleKey now (p0\<lparr>lastUsed := now\<rparr>)))"
proof -
  have h: "\<And>x :: OpenAIKey. hash (openaiThrottleKey now x) = hash x"
    by (simp add: openaiThrottleKey_def Let_def)
  show ?thesis
    by (rule get_core[where thr = "openaiThrottleKey now" and custom = "Some openaiTrialComparator"
          and pred = "openaiAvailable checkKeys mdl" and now = now and keys = keys,
          OF h refl refl refl])
       (use assms in \<open>simp only: openaiGet_def openaiThrottle_def Let_def\<close>)
qed


lemma openaiGet_defined:
  assumes "\<exists>k\<in>set keys. openaiAvailable checkKeys mdl k"
  shows "\<exists>k keys'. openaiGet checkKeys now mdl keys = Inr (k, keys')"
proof -
  let ?av = "filter (\<lambda>r. openaiAvailable checkKeys mdl (snd r)) (enumerate 0 keys)"
  have ne: "?av \<noteq> []" using assms by (simp only: available_nonempty)
  from get_core_defined[where thr = "openaiThrottleKey now", OF refl refl refl ne]
  obtain keys2 where "update_first
     (\<lambda>k. hash k = hash (keys[fst (hd (prioritizeRefs now (Some openaiTrialComparator) ?av))
              := (keys ! fst (hd (prioritizeRefs now (Some openaiTrialComparator) ?av)))\<lparr>lastUsed := now\<rparr>]
            ! fst (hd (prioritizeRefs now (Some openaiTrialComparator) ?av))))
     (openaiThrottleKey now)
     (keys[fst (hd (prioritizeRefs now (Some openaiTrialComparator) ?av))
              := (keys ! fst (hd (prioritizeRefs now (Some openaiTrialComparator) ?av)))\<lparr>lastUsed := now\<rparr>])
     = Some keys2" by blast
  with ne show ?thesis by (simp add: openaiGet_def openaiThrottle_def Let_def)
qed

lemma openaiGet_unavailable:
  assumes "\<not> (\<exists>k\<in>set keys. openaiAvailable checkKeys mdl k)"
  shows "openaiGet checkKeys now mdl keys = Inl PaymentRequiredError"
proof -
  have "filter (\<lambda>r. openaiAvailable checkKeys mdl (snd r)) (enumerate 0 keys) = []"
    using assms available_nonempty[of "openaiAvailable checkKeys mdl" keys] by blast
  then show ?thesis by (simp add: openaiGet_def Let_def)
qed


lemma openai_example_get_checked:
  "openaiGet True 16000 ''gpt-4'' [openaiKeyStale, openaiKeyChecked]
     = Inr (openaiKeyChecked\<lparr>lastUsed := 16000, rateLimitedAt := 16000,
                               rateLimitedUntil := 17000, rateLimitRequestsReset := 1000\<rparr>,
            [openaiKeyStale,
             openaiKeyChecked\<lparr>lastUsed := 16000, rateLimitedAt := 16000,
                               rateLimitedUntil := 17000, rateLimitRequestsReset := 1000\<rparr>])"
  by code_simp

lemma openai_example_get_unchecked:
  "openaiGet False 16000 ''gpt-4'' [openaiKeyFresh]
     = Inr (openaiKeyFresh\<lparr>lastUsed := 16000, rateLimitedAt := 16000,
                             rateLimitedUntil := 17000, rateLimitRequestsReset := 1000\<rparr>,
            [openaiKeyFresh\<lparr>lastUsed := 16000, rateLimitedAt := 16000,
                             rateLimitedUntil := 17000, rateLimitRequestsReset := 1000\<rparr>])"
  by code_simp


lemma openai_example_get_two:
  "openaiGet False 16000 ''gpt-4'' [openaiKeyStale, openaiKeyChecked]
     = Inr (openaiKeyStale\<lparr>lastUsed := 16000\<rparr>,
            [openaiKeyStale\<lparr>lastUsed := 16000\<rparr>, openaiKeyChecked])"
  by code_simp


lemma openaiThrottleKey_fields:
  "isDisabled (openaiThrottleKey now x) = isDisabled x"
  "modelFamilies (openaiThrottleKey now x) = modelFamilies x"
  "modelIds (openaiThrottleKey now x) = modelIds x"
  "isTrial (openaiThrottleKey now x) = isTrial x"
  by (simp_all add: openaiThrottleKey_def Let_def)









lemma openaiAvailable_iff:
  "openaiAvailable ck mdl k \<longleftrightarrow>
      \<not> isDisabled k \<and> getOpenAIModelFamily mdl \<in> set (modelFamilies k) \<and>
      (mdl = ''text-embedding-ada-002'' \<longrightarrow> \<not> isTrial k) \<and> (ck \<longrightarrow> mdl \<in> set (modelIds k))"
  by (auto simp: openaiAvailable_def Let_def)

text \<open>
  Claim C10. With \<^verbatim>\<open>config.checkKeys\<close> off, the filter of
  \<^verbatim>\<open>OpenAIKeyProvider.get\<close> is exactly: not disabled, the family of the model among
  the key's families, and no trial key for \<^verbatim>\<open>text-embedding-ada-002\<close>; the call
  succeeds exactly when some key passes it, the key returned passes it, and a key whose
  \<^verbatim>\<open>modelIds\<close> lacks the model can be returned. With \<^verbatim>\<open>config.checkKeys\<close> on,
  the filter also demands that \<^verbatim>\<open>modelIds\<close> holds the model, and so does every key
  returned.
\<close>

theorem openai_snapshot_filter_only_when_checking:
  "(openaiAvailable False mdl k0 \<longleftrightarrow>
      \<not> isDisabled k0 \<and> getOpenAIModelFamily mdl \<in> set (modelFamilies k0) \<and>
      (mdl = ''text-embedding-ada-002'' \<longrightarrow> \<not> isTrial k0)) \<and>
   (openaiAvailable True mdl k0 \<longleftrightarrow>
      \<not> isDisabled k0 \<and> getOpenAIModelFamily mdl \<in> set (modelFamilies k0) \<and>
      (mdl = ''text-embedding-ada-002'' \<longrightarrow> \<not> isTrial k0) \<and> mdl \<in> set (modelIds k0)) \<and>
   ((\<exists>k keys'. openaiGet False now mdl keys = Inr (k, keys')) \<longleftrightarrow>
      (\<exists>k\<in>set keys. \<not> isDisabled k \<and> getOpenAIModelFamily mdl \<in> set (modelFamilies k) \<and>
                     (mdl = ''text-embedding-ada-002'' \<longrightarrow> \<not> isTrial k))) \<and>
   (openaiGet False now mdl keys = Inr (k1, keys1) \<longrightarrow>
      \<not> isDisabled k1 \<and> getOpenAIModelFamily mdl \<in> set (modelFamilies k1) \<and>
      (mdl = ''text-embedding-ada-002'' \<longrightarrow> \<not> isTrial k1)) \<and>
   (openaiGet True now mdl keys = Inr (k2, keys2) \<longrightarrow> mdl \<in> set (modelIds k2)) \<and>
   (\<exists>k keys'. openaiGet False 16000 ''gpt-4'' [openaiKeyFresh] = Inr (k, keys') \<and>
               ''gpt-4'' \<notin> set (modelIds k))"
proof -
  note av = openaiAvailable_iff
  have a: "openaiAvailable False mdl k0 \<longleftrightarrow>
      \<not> isDisabled k0 \<and> getOpenAIModelFamily mdl \<in> set (modelFamilies k0) \<and>
      (mdl = ''text-embedding-ada-002'' \<longrightarrow> \<not> isTrial k0)" by (simp add: av)
  have b: "openaiAvailable True mdl k0 \<longleftrightarrow>
      \<not> isDisabled k0 \<and> getOpenAIModelFamily mdl \<in> set (modelFamilies k0) \<and>
      (mdl = ''text-embedding-ada-002'' \<longrightarrow> \<not> isTrial k0) \<and> mdl \<in> set (modelIds k0)"
    by (simp add: av)
  have c: "(\<exists>k keys'. openaiGet False now mdl keys = Inr (k, keys')) \<longleftrightarrow>
      (\<exists>k\<in>set keys. \<not> isDisabled k \<and> getOpenAIModelFamily mdl \<in> set (modelFamilies k) \<and>
                     (mdl = ''text-embedding-ada-002'' \<longrightarrow> \<not> isTrial k))"
  proof (cases "\<exists>k\<in>set keys. openaiAvailable False mdl k")
    case True
    from openaiGet_defined[OF True] True show ?thesis by (simp add: av)
  next
    case False
    from openaiGet_unavailable[OF False] False show ?thesis by (simp add: av)
  qed
  have shape: "\<And>ck k keys'. openaiGet ck now mdl keys = Inr (k, keys') \<Longrightarrow>
      \<not> isDisabled k \<and> getOpenAIModelFamily mdl \<in> set (modelFamilies k) \<and>
      (mdl = ''text-embedding-ada-002'' \<longrightarrow> \<not> isTrial k) \<and> (ck \<longrightarrow> mdl \<in> set (modelIds k))"
  proof -
    fix ck k keys' assume g: "openaiGet ck now mdl keys = Inr (k, keys')"
    from openaiGet_shape[OF g] obtain i where
      i: "openaiAvailable ck mdl (keys ! i)"
         "k = (keys ! i)\<lparr>lastUsed := now\<rparr> \<or>
          k = openaiThrottleKey now ((keys ! i)\<lparr>lastUsed := now\<rparr>)" by blast
    from i(2) have "isDisabled k = isDisabled (keys ! i)" "modelFamilies k = modelFamilies (keys ! i)"
      "isTrial k = isTrial (keys ! i)" "modelIds k = modelIds (keys ! i)"
      by (auto simp: openaiThrottleKey_fields)
    with i(1) show "\<not> isDisabled k \<and> getOpenAIModelFamily mdl \<in> set (modelFamilies k) \<and>
      (mdl = ''text-embedding-ada-002'' \<longrightarrow> \<not> isTrial k) \<and> (ck \<longrightarrow> mdl \<in> set (modelIds k))"
      by (simp add: av)
  qed
  have d: "openaiGet False now mdl keys = Inr (k1, keys1) \<longrightarrow>
      \<not> isDisabled k1 \<and> getOpenAIModelFamily mdl \<in> set (modelFamilies k1) \<and>
      (mdl = ''text-embedding-ada-002'' \<longrightarrow> \<not> isTrial k1)"
    using shape[of False k1 keys1] by blast
  have e: "openaiGet True now mdl keys = Inr (k2, keys2) \<longrightarrow> mdl \<in> set (modelIds k2)"
    using shape[of True k2 keys2] by blast
  have f: "\<exists>k keys'. openaiGet False 16000 ''gpt-4'' [openaiKeyFresh] = Inr (k, keys') \<and>
               ''gpt-4'' \<notin> set (modelIds k)"
    using openai_example_get_unchecked by (simp add: openaiKeyFresh_def)
  from a b c d e f show ?thesis by blast
qed


theorem openai_snapshot_filter_only_when_checking_witness:
  "openaiGet False 16000 ''gpt-4'' [openaiKeyStale, openaiKeyChecked]
     = Inr (openaiKeyStale\<lparr>lastUsed := 16000\<rparr>,
            [openaiKeyStale\<lparr>lastUsed := 16000\<rparr>, openaiKeyChecked]) \<and>
   \<not> isDisabled (openaiKeyStale\<lparr>lastUsed := 16000\<rparr>) \<and>
   ''gpt-4'' \<notin> set (modelIds (openaiKeyStale\<lparr>lastUsed := 16000\<rparr>)) \<and>
   openaiGet True 16000 ''gpt-4'' [openaiKeyStale, openaiKeyChecked]
     = Inr (openaiKeyChecked\<lparr>lastUsed := 16000, rateLimitedAt := 16000,
                               rateLimitedUntil := 17000, rateLimitRequestsReset := 1000\<rparr>,
            [openaiKeyStale,
             openaiKeyChecked\<lparr>lastUsed := 16000, rateLimitedAt := 16000,
                               rateLimitedUntil := 17000, rateLimitRequestsReset := 1000\<rparr>]) \<and>
   ''gpt-4'' \<in> set (modelIds (openaiKeyChecked\<lparr>lastUsed := 16000, rateLimitedAt := 16000,
                               rateLimitedUntil := 17000, rateLimitRequestsReset := 1000\<rparr>))"
proof -
  have n: "''gpt-4'' \<notin> set (modelIds (openaiKeyStale\<lparr>lastUsed := 16000\<rparr>))"
    by (simp add: openaiKeyStale_def)
  note t = openai_snapshot_filter_only_when_checking
       [of "''gpt-4''" openaiKeyStale 16000 "[openaiKeyStale, openaiKeyChecked]"
           "openaiKeyStale\<lparr>lastUsed := 16000\<rparr>"
           "[openaiKeyStale\<lparr>lastUsed := 16000\<rparr>, openaiKeyChecked]"
           "openaiKeyChecked\<lparr>lastUsed := 16000, rateLimitedAt := 16000,
                               rateLimitedUntil := 17000, rateLimitRequestsReset := 1000\<rparr>"
           "[openaiKeyStale,
             openaiKeyChecked\<lparr>lastUsed := 16000, rateLimitedAt := 16000,
                               rateLimitedUntil := 17000, rateLimitRequestsReset := 1000\<rparr>]"]
  note d = mp[OF conjunct1[OF conjunct2[OF conjunct2[OF conjunct2[OF t]]]] openai_example_get_two]
  note e = mp[OF conjunct1[OF conjunct2[OF conjunct2[OF conjunct2[OF conjunct2[OF t]]]]]
                openai_example_get_checked]
  from openai_example_get_two conjunct1[OF d] n openai_example_get_checked e
  show ?thesis by (intro conjI)
qed


section \<open>Dequeueing (C6)\<close>

lemma bitLength_0 [simp]: "bitLength 0 = 0"
  by (simp add: bitLength.simps)

lemma bitLength_pos: "0 < n \<Longrightarrow> bitLength n = Suc (bitLength (n div 2))"
  by (subst bitLength.simps) simp

lemma bitLength_upper: "n < 2 ^ bitLength n"
proof (induction n rule: bitLength.induct)
  case (1 n)
  show ?case
  proof (cases "n = 0")
    case True then show ?thesis by simp
  next
    case False
    then have b: "bitLength n = Suc (bitLength (n div 2))" by (simp add: bitLength_pos)
    from 1[OF False] have "n div 2 < 2 ^ bitLength (n div 2)" .
    then have "n < 2 * 2 ^ bitLength (n div 2)" by linarith
    then show ?thesis by (simp add: b)
  qed
qed

lemma bitLength_lower: "0 < n \<Longrightarrow> 2 ^ (bitLength n - 1) \<le> n"
proof (induction n rule: bitLength.induct)
  case (1 n)
  then have n0: "n \<noteq> 0" by simp
  have b: "bitLength n = Suc (bitLength (n div 2))" using 1(2) by (simp add: bitLength_pos)
  show ?case
  proof (cases "n div 2 = 0")
    case True
    then show ?thesis using 1(2) by (simp add: b)
  next
    case False
    then have p: "0 < n div 2" by simp
    from 1(1)[OF n0 p] have "2 ^ (bitLength (n div 2) - 1) \<le> n div 2" .
    then have "2 * 2 ^ (bitLength (n div 2) - 1) \<le> n" by linarith
    moreover have "bitLength (n div 2) \<noteq> 0" using p by (simp add: bitLength_pos)
    then have "Suc (bitLength (n div 2) - 1) = bitLength (n div 2)" by simp
    then have "(2::nat) ^ bitLength (n div 2) = 2 * 2 ^ (bitLength (n div 2) - 1)"
      by (metis power_Suc)
    ultimately show ?thesis by (simp add: b)
  qed
qed

lemma bitLength_unique:
  assumes "2 ^ k \<le> n" and "n < 2 ^ Suc k"
  shows "bitLength n = Suc k"
proof -
  have pos: "0 < n" using assms(1) by (metis gr0I not_less power_eq_0_iff zero_neq_numeral less_nat_zero_code le_zero_eq)
  have "n < 2 ^ bitLength n" by (rule bitLength_upper)
  with assms(1) have "(2::nat) ^ k < 2 ^ bitLength n" by linarith
  then have a: "k < bitLength n" by (simp add: power_strict_increasing_iff)
  from bitLength_lower[OF pos] assms(2) have "(2::nat) ^ (bitLength n - 1) < 2 ^ Suc k" by linarith
  then have "bitLength n - 1 < Suc k" by (rule power_less_imp_less_exp[rotated]) simp
  with a show ?thesis by linarith
qed

lemma bitLength_le_iff: "bitLength n \<le> k \<longleftrightarrow> n < 2 ^ k"
proof
  assume "bitLength n \<le> k"
  then have "(2::nat) ^ bitLength n \<le> 2 ^ k" by (simp add: power_increasing)
  with bitLength_upper[of n] show "n < 2 ^ k" by linarith
next
  assume a: "n < 2 ^ k"
  show "bitLength n \<le> k"
  proof (cases "n = 0")
    case True then show ?thesis by simp
  next
    case False
    then have "0 < n" by simp
    then have "2 ^ (bitLength n - 1) \<le> n" by (rule bitLength_lower)
    with a have "(2::nat) ^ (bitLength n - 1) < 2 ^ k" by linarith
    then have "bitLength n - 1 < k" by (rule power_less_imp_less_exp[rotated]) simp
    then show ?thesis by linarith
  qed
qed

lemma bitLength_shift:
  assumes "0 < n"
  shows "bitLength (n * 2 ^ k) = bitLength n + k"
proof -
  from assms have b: "bitLength n = Suc (bitLength n - 1)" by (simp add: bitLength_pos)
  have lo: "2 ^ (bitLength n - 1 + k) \<le> n * 2 ^ k"
    using bitLength_lower[OF assms] by (simp add: power_add)
  have "n * 2 ^ k < 2 ^ bitLength n * 2 ^ k"
    using bitLength_upper[of n] by simp
  then have hi: "n * 2 ^ k < 2 ^ Suc (bitLength n - 1 + k)"
    using b by (metis add_Suc power_add)
  from bitLength_unique[OF lo hi] b show ?thesis by simp
qed


lemma divide_less_cancel_pos:
  fixes c :: real
  assumes "0 < c"
  shows "(x / c < y / c) = (x < y)"
  using assms by (simp add: divide_less_cancel)

lemma scaled_real:
  assumes "e \<le> x"
  shows "real_of_int (m * 2 ^ nat (x - e)) = real_of_int m * 2 powi x / 2 powi e"
proof -
  have "(2::real) ^ nat (x - e) = 2 powi (x - e)"
    using assms by (simp add: power_int_def)
  also have "\<dots> = 2 powi x / 2 powi e"
    by (simp add: power_int_diff)
  finally show ?thesis by simp
qed

lemma jsLess_finite:
  "jsLess (JsFinite a ea) (JsFinite b eb) \<longleftrightarrow> jsReal (JsFinite a ea) < jsReal (JsFinite b eb)"
proof -
  let ?e = "min ea eb"
  have p: "(0::real) < 2 powi ?e" by simp
  have "jsLess (JsFinite a ea) (JsFinite b eb)
          \<longleftrightarrow> a * 2 ^ nat (ea - ?e) < b * 2 ^ nat (eb - ?e)"
    by (simp add: jsLess_def Let_def)
  also have "\<dots> \<longleftrightarrow> real_of_int (a * 2 ^ nat (ea - ?e)) < real_of_int (b * 2 ^ nat (eb - ?e))"
    by (simp only: of_int_less_iff)
  also have "\<dots> \<longleftrightarrow> real_of_int a * 2 powi ea / 2 powi ?e < real_of_int b * 2 powi eb / 2 powi ?e"
    by (simp only: scaled_real[OF min.cobounded1] scaled_real[OF min.cobounded2])
  also have "\<dots> \<longleftrightarrow> real_of_int a * 2 powi ea < real_of_int b * 2 powi eb"
    by (rule divide_less_cancel_pos[OF p])
  finally show ?thesis by (simp add: jsReal_def)
qed

lemma jsLess_infinite:
  "jsLess (JsFinite m e) JsPosInfinity" "\<not> jsLess (JsFinite m e) JsNegInfinity"
  "jsLess JsNegInfinity (JsFinite m e)"
  "jsLess JsNegInfinity JsPosInfinity" "\<not> jsLess JsNegInfinity JsNegInfinity"
  "\<not> jsLess JsPosInfinity (JsFinite m e)" "\<not> jsLess JsPosInfinity JsPosInfinity"
  "\<not> jsLess JsPosInfinity JsNegInfinity"
  by (simp_all add: jsLess_def)

lemma jsLess_NaN: "\<not> jsLess JsNaN b" "\<not> jsLess a JsNaN"
  by (cases b; simp add: jsLess_def) (cases a; simp add: jsLess_def)

lemma jsLess_asym: "jsLess a b \<Longrightarrow> \<not> jsLess b a"
  by (cases a; cases b) (simp_all add: jsLess_finite jsLess_infinite jsLess_NaN)

lemma jsLess_negtrans:
  assumes "b \<noteq> JsNaN" and "\<not> jsLess a b" and "\<not> jsLess b c"
  shows "\<not> jsLess a c"
  using assms
  by (cases a; cases b; cases c) (simp_all add: jsLess_finite jsLess_infinite jsLess_NaN)

lemma reduce_mem:
  "foldl (\<lambda>prev curr. if lt prev curr then prev else curr) a xs \<in> insert a (set xs)"
proof (induction xs arbitrary: a)
  case Nil show ?case by simp
next
  case (Cons y ys)
  from Cons[of "if lt a y then a else y"] show ?case by auto
qed

lemma reduce_least:
  assumes asym: "\<And>x y. lt x y \<Longrightarrow> \<not> lt y x"
      and nt: "\<And>x y z. y \<in> insert a (set xs) \<Longrightarrow> \<not> lt x y \<Longrightarrow> \<not> lt y z \<Longrightarrow> \<not> lt x z"
  shows "\<forall>x \<in> insert a (set xs).
           \<not> lt x (foldl (\<lambda>prev curr. if lt prev curr then prev else curr) a xs)"
  using nt
proof (induction xs arbitrary: a)
  case Nil
  show ?case using asym by auto
next
  case (Cons y ys)
  let ?step = "\<lambda>prev curr. if lt prev curr then prev else curr"
  let ?b = "?step a y"
  let ?r = "foldl ?step ?b ys"
  have bin: "?b \<in> insert a (set (y # ys))" by simp
  have sub: "insert ?b (set ys) \<subseteq> insert a (set (y # ys))" by auto
  have ih: "\<forall>x \<in> insert ?b (set ys). \<not> lt x ?r"
  proof (rule Cons.IH)
    fix x y' z
    assume "y' \<in> insert ?b (set ys)" "\<not> lt x y'" "\<not> lt y' z"
    with sub show "\<not> lt x z" using Cons.prems[of y' x z] by blast
  qed
  then have br: "\<not> lt ?b ?r" by blast
  have ab: "\<not> lt a ?b" using asym by auto
  have yb: "\<not> lt y ?b" using asym by (auto dest: asym)
  have "\<not> lt a ?r" using Cons.prems[OF bin ab br] .
  moreover have "\<not> lt y ?r" using Cons.prems[OF bin yb br] .
  ultimately show ?case using ih by simp
qed


lemma roundHalfEven_exact: "0 < d \<Longrightarrow> roundHalfEven (k * d) d = k"
  by (simp add: roundHalfEven_def Let_def)

lemma bitLength_int_bound:
  assumes "\<bar>v\<bar> < 2 ^ 53"
  shows "bitLength (nat \<bar>v\<bar>) \<le> 53"
proof -
  have "nat \<bar>v\<bar> < 2 ^ 53" using assms by (simp add: nat_less_iff)
  then show ?thesis by (simp only: bitLength_le_iff)
qed

lemma roundToDouble_integral:
  assumes e: "e \<le> 0" and m: "m = v * 2 ^ nat (- e)" and v: "\<bar>v\<bar> < 2 ^ 53"
  shows "roundToDouble m e = jsInt v"
proof (cases "v = 0")
  case True
  with m show ?thesis by (simp add: roundToDouble_def jsInt_def)
next
  case False
  let ?L = "bitLength (nat \<bar>v\<bar>)"
  have vpos: "0 < nat \<bar>v\<bar>" using False by simp
  have L1: "1 \<le> ?L" using vpos by (simp add: bitLength_pos)
  have L53: "?L \<le> 53" using v by (rule bitLength_int_bound)
  have m0: "m \<noteq> 0" using False m by simp
  have am: "nat \<bar>m\<bar> = nat \<bar>v\<bar> * 2 ^ nat (- e)"
    by (simp add: m abs_mult nat_mult_distrib nat_power_eq)
  have bm: "int (bitLength (nat \<bar>m\<bar>)) = int ?L - e"
    using e by (simp add: am bitLength_shift[OF vpos])
  define t where "t = int ?L - 53"
  have t0: "t \<le> 0" using L53 by (simp add: t_def)
  have tmax: "max (e + int (bitLength (nat \<bar>m\<bar>)) - 53) (- 1074) = t"
    using L1 by (simp add: bm t_def)
  have nt: "nat (- t) = 53 - ?L" using L53 by (simp add: t_def)
  define n where "n = v * 2 ^ nat (- t)"
  have nn: "(if t \<le> e then m * 2 ^ nat (e - t) else roundHalfEven m (2 ^ nat (t - e))) = n"
  proof (cases "t \<le> e")
    case True
    have "nat (- e) + nat (e - t) = nat (- t)" using True e by simp
    then have "(2::int) ^ nat (- e) * 2 ^ nat (e - t) = 2 ^ nat (- t)"
      by (metis power_add)
    then have "m * 2 ^ nat (e - t) = n" by (simp add: m n_def mult.assoc)
    with True show ?thesis by simp
  next
    case False
    have "nat (- t) + nat (t - e) = nat (- e)" using False t0 by simp
    then have "(2::int) ^ nat (- t) * 2 ^ nat (t - e) = 2 ^ nat (- e)"
      by (metis power_add)
    then have "m = n * 2 ^ nat (t - e)" by (simp add: m n_def mult.assoc)
    moreover have "(0::int) < 2 ^ nat (t - e)" by simp
    ultimately have "roundHalfEven m (2 ^ nat (t - e)) = n"
      using roundHalfEven_exact by blast
    with False show ?thesis by simp
  qed
  have an: "nat \<bar>n\<bar> = nat \<bar>v\<bar> * 2 ^ nat (- t)"
    by (simp add: n_def abs_mult nat_mult_distrib nat_power_eq)
  have bn: "bitLength (nat \<bar>n\<bar>) = 53"
    using L53 by (simp add: an bitLength_shift[OF vpos] nt)
  have no: "\<not> 1024 < t + int (bitLength (nat \<bar>n\<bar>))"
    using t0 by (simp add: bn)
  have "roundToDouble m e = JsFinite n t"
    unfolding roundToDouble_def Let_def tmax nn using m0 no by simp
  also have "\<dots> = jsInt v"
    using False by (simp add: jsInt_def n_def nt t_def)
  finally show ?thesis .
qed

lemma jsInt_shape:
  assumes "\<bar>v\<bar> < 2 ^ 53"
  shows "\<exists>n t. jsInt v = JsFinite n t \<and> t \<le> 0 \<and> n = v * 2 ^ nat (- t)"
proof (cases "v = 0")
  case True then show ?thesis by (simp add: jsInt_def)
next
  case False
  have L53: "bitLength (nat \<bar>v\<bar>) \<le> 53" using assms by (rule bitLength_int_bound)
  then have "nat (- (int (bitLength (nat \<bar>v\<bar>)) - 53)) = 53 - bitLength (nat \<bar>v\<bar>)" by simp
  with False L53 show ?thesis by (simp add: jsInt_def)
qed

lemma jsAdd_ints:
  assumes "\<bar>a + b\<bar> < 2 ^ 53"
  shows "jsAdd (JsFinite a 0) (JsFinite b 0) = jsInt (a + b)"
proof -
  have "jsAdd (JsFinite a 0) (JsFinite b 0) = roundToDouble (a + b) 0"
    by (simp add: jsAdd_def)
  also have "\<dots> = jsInt (a + b)"
    by (rule roundToDouble_integral[OF _ _ assms]) simp_all
  finally show ?thesis .
qed

lemma jsMul_int:
  assumes v: "\<bar>v\<bar> < 2 ^ 53" and p: "\<bar>f * v\<bar> < 2 ^ 53"
  shows "jsMul (JsFinite f 0) (jsInt v) = jsInt (f * v)"
proof -
  from jsInt_shape[OF v] obtain n t where
    s: "jsInt v = JsFinite n t" "t \<le> 0" "n = v * 2 ^ nat (- t)" by blast
  have "jsMul (JsFinite f 0) (jsInt v) = roundToDouble (f * n) t"
    by (simp add: s(1) jsMul_def)
  also have "\<dots> = jsInt (f * v)"
    by (rule roundToDouble_integral[OF s(2) _ p]) (simp add: s(3))
  finally show ?thesis .
qed

lemma jsAdd_int:
  assumes v: "\<bar>v\<bar> < 2 ^ 53" and p: "\<bar>a + v\<bar> < 2 ^ 53"
  shows "jsAdd (JsFinite a 0) (jsInt v) = jsInt (a + v)"
proof -
  from jsInt_shape[OF v] obtain n t where
    s: "jsInt v = JsFinite n t" "t \<le> 0" "n = v * 2 ^ nat (- t)" by blast
  have "jsAdd (JsFinite a 0) (jsInt v) = roundToDouble (a * 2 ^ nat (- t) + n) t"
    using s(2) by (simp add: s(1) jsAdd_def Let_def min_def)
  also have "\<dots> = jsInt (a + v)"
    by (rule roundToDouble_integral[OF s(2) _ p]) (simp add: s(3) algebra_simps)
  finally show ?thesis .
qed

lemma jsReal_jsInt:
  assumes "\<bar>v\<bar> < 2 ^ 53"
  shows "jsReal (jsInt v) = real_of_int v"
proof -
  from jsInt_shape[OF assms] obtain n t where
    s: "jsInt v = JsFinite n t" "t \<le> 0" "n = v * 2 ^ nat (- t)" by blast
  have "(2::real) ^ nat (- t) * 2 powi t = 1"
    using s(2) by (simp add: power_int_def field_simps)
  then show ?thesis by (simp add: s(1,3) jsReal_def mult.assoc)
qed

lemma jsLess_jsInt:
  assumes "\<bar>a\<bar> < 2 ^ 53" and "\<bar>b\<bar> < 2 ^ 53"
  shows "jsLess (jsInt a) (jsInt b) \<longleftrightarrow> a < b"
proof -
  from jsInt_shape[OF assms(1)] obtain n t where s: "jsInt a = JsFinite n t" by blast
  from jsInt_shape[OF assms(2)] obtain n' t' where s': "jsInt b = JsFinite n' t'" by blast
  have "jsLess (jsInt a) (jsInt b) \<longleftrightarrow> jsReal (jsInt a) < jsReal (jsInt b)"
    unfolding s s' by (rule jsLess_finite)
  then show ?thesis by (simp add: jsReal_jsInt[OF assms(1)] jsReal_jsInt[OF assms(2)])
qed

lemma jsInt_not_NaN: "jsInt v \<noteq> JsNaN"
  by (simp add: jsInt_def)


lemma dequeue_empty:
  "getQueueForPartition fam q = [] \<Longrightarrow> dequeue cfg now fam q = (None, q)"
  by (simp add: dequeue_def Let_def)

lemma partition_remove1_other:
  "modelFamily r \<noteq> g \<Longrightarrow> getQueueForPartition g (remove1 r q) = getQueueForPartition g q"
  unfolding getQueueForPartition_def
  by (simp add: filter_remove1 remove1_idem)

lemma partition_remove1_same:
  "getQueueForPartition g (remove1 r q) = remove1 r (getQueueForPartition g q)"
  unfolding getQueueForPartition_def by (rule filter_remove1)

lemma dequeue_nonempty:
  assumes ne: "getQueueForPartition fam q \<noteq> []"
  shows "\<exists>r. dequeue cfg now fam q = (Some (r\<lparr>queueOutTime := now\<rparr>), remove1 r q) \<and>
             r \<in> set (getQueueForPartition fam q) \<and>
             ((\<forall>x \<in> set (getQueueForPartition fam q).
                 jsAdd (JsFinite (startTime x) 0)
                   (jsMul (tokensPunishmentFactor cfg)
                      (jsAdd (JsFinite (case promptTokens x of Some n \<Rightarrow> n | None \<Rightarrow> 0) 0)
                             (JsFinite (case outputTokens x of Some n \<Rightarrow> n | None \<Rightarrow> 0) 0)))
                 \<noteq> JsNaN) \<longrightarrow>
              (\<forall>x \<in> set (getQueueForPartition fam q).
                 \<not> jsLess
                     (jsAdd (JsFinite (startTime x) 0)
                        (jsMul (tokensPunishmentFactor cfg)
                           (jsAdd (JsFinite (case promptTokens x of Some n \<Rightarrow> n | None \<Rightarrow> 0) 0)
                                  (JsFinite (case outputTokens x of Some n \<Rightarrow> n | None \<Rightarrow> 0) 0))))
                     (jsAdd (JsFinite (startTime r) 0)
                        (jsMul (tokensPunishmentFactor cfg)
                           (jsAdd (JsFinite (case promptTokens r of Some n \<Rightarrow> n | None \<Rightarrow> 0) 0)
                                  (JsFinite (case outputTokens r of Some n \<Rightarrow> n | None \<Rightarrow> 0) 0))))))"
proof -
  let ?mq = "getQueueForPartition fam q"
  let ?sc = "\<lambda>x. jsAdd (JsFinite (startTime x) 0)
                   (jsMul (tokensPunishmentFactor cfg)
                      (jsAdd (JsFinite (case promptTokens x of Some n \<Rightarrow> n | None \<Rightarrow> 0) 0)
                             (JsFinite (case outputTokens x of Some n \<Rightarrow> n | None \<Rightarrow> 0) 0)))"
  let ?lt = "\<lambda>prev curr. jsLess (?sc prev) (?sc curr)"
  let ?r = "foldl (\<lambda>prev curr. if ?lt prev curr then prev else curr) (hd ?mq) (tl ?mq)"
  have ins: "insert (hd ?mq) (set (tl ?mq)) = set ?mq"
    using ne by (metis list.collapse list.simps(15))
  have d: "dequeue cfg now fam q = (Some (?r\<lparr>queueOutTime := now\<rparr>), remove1 ?r q)"
    using ne by (simp add: dequeue_def Let_def)
  have mem: "?r \<in> set ?mq"
    using reduce_mem[of ?lt "hd ?mq" "tl ?mq"] ins by simp
  have least: "\<forall>x \<in> set ?mq. \<not> ?lt x ?r" if nn: "\<forall>x \<in> set ?mq. ?sc x \<noteq> JsNaN"
  proof -
    have "\<forall>x \<in> insert (hd ?mq) (set (tl ?mq)).
            \<not> ?lt x (foldl (\<lambda>prev curr. if ?lt prev curr then prev else curr) (hd ?mq) (tl ?mq))"
    proof (rule reduce_least)
      fix x y assume "?lt x y" then show "\<not> ?lt y x" by (rule jsLess_asym)
    next
      fix x y z
      assume y: "y \<in> insert (hd ?mq) (set (tl ?mq))" and a: "\<not> ?lt x y" and b: "\<not> ?lt y z"
      from y ins nn have "?sc y \<noteq> JsNaN" by blast
      from jsLess_negtrans[OF this a b] show "\<not> ?lt x z" .
    qed
    then show ?thesis unfolding ins .
  qed
  from d mem least show ?thesis by blast
qed

lemma dequeue_other_partition:
  assumes "g \<noteq> fam"
  shows "getQueueForPartition g (snd (dequeue cfg now fam q)) = getQueueForPartition g q"
proof (cases "getQueueForPartition fam q = []")
  case True then show ?thesis by (simp add: dequeue_empty)
next
  case False
  from dequeue_nonempty[OF False, of cfg now] obtain r where
    "dequeue cfg now fam q = (Some (r\<lparr>queueOutTime := now\<rparr>), remove1 r q)"
    "r \<in> set (getQueueForPartition fam q)"
    by blast
  then have d: "snd (dequeue cfg now fam q) = remove1 r q" and "modelFamily r = fam"
    by (simp_all add: getQueueForPartition_def)
  with assms have "modelFamily r \<noteq> g" by simp
  then show ?thesis unfolding d by (rule partition_remove1_other)
qed

lemma dequeue_by_partition:
  assumes "getQueueForPartition fam q1 = getQueueForPartition fam q"
  shows "fst (dequeue cfg now fam q1) = fst (dequeue cfg now fam q)"
    and "getQueueForPartition fam (snd (dequeue cfg now fam q1))
           = getQueueForPartition fam (snd (dequeue cfg now fam q))"
  using assms by (simp_all add: dequeue_def Let_def partition_remove1_same)

lemma processFamilies_untouched:
  "g \<notin> set fs \<or> lockout g \<noteq> 0
     \<Longrightarrow> getQueueForPartition g (snd (processFamilies cfg lockout now fs q))
         = getQueueForPartition g q"
proof (induction fs arbitrary: q)
  case Nil then show ?case by simp
next
  case (Cons f fs)
  show ?case
  proof (cases "lockout f = 0")
    case True
    with Cons.prems have gf: "g \<noteq> f" by auto
    obtain r q1 where d: "dequeue cfg now f q = (r, q1)" by (cases "dequeue cfg now f q")
    obtain rs q2 where p: "processFamilies cfg lockout now fs q1 = (rs, q2)"
      by (cases "processFamilies cfg lockout now fs q1")
    have "getQueueForPartition g q2 = getQueueForPartition g q1"
      using Cons.IH[of q1] Cons.prems p by auto
    also have "\<dots> = getQueueForPartition g q"
      using dequeue_other_partition[OF gf, of cfg now q] d by simp
    finally show ?thesis using True d p by simp
  next
    case False
    then show ?thesis using Cons.IH[of q] Cons.prems by auto
  qed
qed

lemma processFamilies_dequeues:
  "distinct fs \<Longrightarrow> f \<in> set fs \<Longrightarrow> lockout f = 0
   \<Longrightarrow> fst (dequeue cfg now f q) \<in> set (fst (processFamilies cfg lockout now fs q)) \<and>
       getQueueForPartition f (snd (processFamilies cfg lockout now fs q))
         = getQueueForPartition f (snd (dequeue cfg now f q))"
proof (induction fs arbitrary: q)
  case Nil then show ?case by simp
next
  case (Cons h fs)
  obtain res q1 where d: "dequeue cfg now h q = (res, q1)" by (cases "dequeue cfg now h q")
  obtain rs q2 where p: "processFamilies cfg lockout now fs q1 = (rs, q2)"
    by (cases "processFamilies cfg lockout now fs q1")
  show ?case
  proof (cases "h = f")
    case True
    from Cons.prems True have nf: "f \<notin> set fs" by simp
    have pf: "processFamilies cfg lockout now (h # fs) q = (res # rs, q2)"
      using True Cons.prems(3) d p by simp
    have "getQueueForPartition f q2 = getQueueForPartition f q1"
      using processFamilies_untouched[of f fs lockout cfg now q1] nf p by simp
    with pf d True show ?thesis by simp
  next
    case False
    with Cons.prems have fin: "f \<in> set fs" and dist: "distinct fs" by auto
    show ?thesis
    proof (cases "lockout h = 0")
      case True
      have same: "getQueueForPartition f q1 = getQueueForPartition f q"
        using dequeue_other_partition[of f h cfg now q] False d by simp
      have pf: "processFamilies cfg lockout now (h # fs) q = (res # rs, q2)"
        using True d p by simp
      from Cons.IH[OF dist fin Cons.prems(3), of q1] p
      have "fst (dequeue cfg now f q1) \<in> set rs"
           "getQueueForPartition f q2 = getQueueForPartition f (snd (dequeue cfg now f q1))"
        by simp_all
      with dequeue_by_partition[OF same, of cfg now] pf show ?thesis by simp
    next
      case nz: False
      then have "processFamilies cfg lockout now (h # fs) q = processFamilies cfg lockout now fs q"
        by simp
      with Cons.IH[OF dist fin Cons.prems(3), of q] show ?thesis by simp
    qed
  qed
qed

lemma distinct_MODEL_FAMILIES: "distinct MODEL_FAMILIES"
  unfolding MODEL_FAMILIES_def by simp

lemma score_exact:
  assumes f: "tokensPunishmentFactor cfg = JsFinite f 0"
      and t: "\<bar>pt + ot\<bar> < 2 ^ 53" and m: "\<bar>f * (pt + ot)\<bar> < 2 ^ 53"
      and s: "\<bar>st + f * (pt + ot)\<bar> < 2 ^ 53"
  shows "jsAdd (JsFinite st 0)
           (jsMul (tokensPunishmentFactor cfg) (jsAdd (JsFinite pt 0) (JsFinite ot 0)))
         = jsInt (st + f * (pt + ot))"
  by (simp only: f jsAdd_ints[OF t] jsMul_int[OF t m] jsAdd_int[OF m s])


text \<open>
  Claim C6, as the code has it. When the partition of a family is not empty,
  \<^verbatim>\<open>dequeue\<close> returns a request \<open>r\<close> of that partition, stamped with
  \<^verbatim>\<open>queueOutTime\<close>, and removes it from the queue; the partitions of the other
  families are as before. The reducer compares \<open>startTime + tokensPunishmentFactor *
  (promptTokens + outputTokens)\<close> as JavaScript computes it, in binary64 arithmetic: when
  no score of the partition is \<^verbatim>\<open>NaN\<close>, no request of the partition has a computed
  score below that of \<open>r\<close>. When the factor is an integer and the token sums, their
  products with the factor and the scores of the partition stay below \<open>2 ^ 53\<close> in
  magnitude, the arithmetic is exact and \<open>r\<close> minimises \<open>startTime + factor *
  (promptTokens + outputTokens)\<close>. In one pass of \<^verbatim>\<open>processQueue\<close> this request is
  handed over for every family of \<^verbatim>\<open>MODEL_FAMILIES\<close> whose lockout period is 0 and
  whose partition is not empty, and the partition of a family whose lockout period is not
  0 is left as it was.
\<close>

theorem dequeue_takes_least_score_of_partition:
  "let score = (\<lambda>x. jsAdd (JsFinite (startTime x) 0)
                      (jsMul (tokensPunishmentFactor cfg)
                         (jsAdd (JsFinite (case promptTokens x of Some n \<Rightarrow> n | None \<Rightarrow> 0) 0)
                                (JsFinite (case outputTokens x of Some n \<Rightarrow> n | None \<Rightarrow> 0) 0))));
       tokens = (\<lambda>x. (case promptTokens x of Some n \<Rightarrow> n | None \<Rightarrow> 0) +
                       (case outputTokens x of Some n \<Rightarrow> n | None \<Rightarrow> 0))
   in (getQueueForPartition fam q \<noteq> [] \<longrightarrow>
         (\<exists>r. dequeue cfg now fam q = (Some (r\<lparr>queueOutTime := now\<rparr>), remove1 r q) \<and>
              r \<in> set q \<and> modelFamily r = fam \<and>
              ((\<forall>x \<in> set (getQueueForPartition fam q). score x \<noteq> JsNaN) \<longrightarrow>
                 (\<forall>x \<in> set (getQueueForPartition fam q). \<not> jsLess (score x) (score r))) \<and>
              (\<forall>f. tokensPunishmentFactor cfg = JsFinite f 0 \<and>
                   (\<forall>x \<in> set (getQueueForPartition fam q).
                      \<bar>tokens x\<bar> < 2 ^ 53 \<and> \<bar>f * tokens x\<bar> < 2 ^ 53 \<and>
                      \<bar>startTime x + f * tokens x\<bar> < 2 ^ 53) \<longrightarrow>
                   (\<forall>x \<in> set (getQueueForPartition fam q).
                      startTime r + f * tokens r \<le> startTime x + f * tokens x)) \<and>
              (\<forall>g. g \<noteq> fam \<longrightarrow>
                   getQueueForPartition g (remove1 r q) = getQueueForPartition g q) \<and>
              (fam \<in> set MODEL_FAMILIES \<and> lockout fam = 0 \<longrightarrow>
                 r\<lparr>queueOutTime := now\<rparr> \<in> set (fst (processQueue cfg lockout now q)) \<and>
                 getQueueForPartition fam (snd (processQueue cfg lockout now q))
                   = remove1 r (getQueueForPartition fam q)))) \<and>
      (lockout fam \<noteq> 0 \<longrightarrow>
         getQueueForPartition fam (snd (processQueue cfg lockout now q))
           = getQueueForPartition fam q)"
proof -
  let ?sc = "\<lambda>x. jsAdd (JsFinite (startTime x) 0)
                   (jsMul (tokensPunishmentFactor cfg)
                      (jsAdd (JsFinite (case promptTokens x of Some n \<Rightarrow> n | None \<Rightarrow> 0) 0)
                             (JsFinite (case outputTokens x of Some n \<Rightarrow> n | None \<Rightarrow> 0) 0)))"
  let ?tk = "\<lambda>x. (case promptTokens x of Some n \<Rightarrow> n | None \<Rightarrow> 0) +
                  (case outputTokens x of Some n \<Rightarrow> n | None \<Rightarrow> (0::int))"
  let ?mq = "getQueueForPartition fam q"
  have A: "\<exists>r. dequeue cfg now fam q = (Some (r\<lparr>queueOutTime := now\<rparr>), remove1 r q) \<and>
              r \<in> set q \<and> modelFamily r = fam \<and>
              ((\<forall>x \<in> set ?mq. ?sc x \<noteq> JsNaN) \<longrightarrow> (\<forall>x \<in> set ?mq. \<not> jsLess (?sc x) (?sc r))) \<and>
              (\<forall>f. tokensPunishmentFactor cfg = JsFinite f 0 \<and>
                   (\<forall>x \<in> set ?mq.
                      \<bar>?tk x\<bar> < 2 ^ 53 \<and> \<bar>f * ?tk x\<bar> < 2 ^ 53 \<and>
                      \<bar>startTime x + f * ?tk x\<bar> < 2 ^ 53) \<longrightarrow>
                   (\<forall>x \<in> set ?mq. startTime r + f * ?tk r \<le> startTime x + f * ?tk x)) \<and>
              (\<forall>g. g \<noteq> fam \<longrightarrow>
                   getQueueForPartition g (remove1 r q) = getQueueForPartition g q) \<and>
              (fam \<in> set MODEL_FAMILIES \<and> lockout fam = 0 \<longrightarrow>
                 r\<lparr>queueOutTime := now\<rparr> \<in> set (fst (processQueue cfg lockout now q)) \<and>
                 getQueueForPartition fam (snd (processQueue cfg lockout now q))
                   = remove1 r ?mq)"
    if ne: "?mq \<noteq> []"
  proof -
    from dequeue_nonempty[OF ne, of cfg now] obtain r where
      d: "dequeue cfg now fam q = (Some (r\<lparr>queueOutTime := now\<rparr>), remove1 r q)" and
      mem: "r \<in> set ?mq" and
      least: "(\<forall>x \<in> set ?mq. ?sc x \<noteq> JsNaN) \<longrightarrow> (\<forall>x \<in> set ?mq. \<not> jsLess (?sc x) (?sc r))"
      by blast
    from mem have rq: "r \<in> set q" and rf: "modelFamily r = fam"
      by (simp_all add: getQueueForPartition_def)
    have exact: "\<forall>x \<in> set ?mq. startTime r + f * ?tk r \<le> startTime x + f * ?tk x"
      if f: "tokensPunishmentFactor cfg = JsFinite f 0"
      and b: "\<forall>x \<in> set ?mq. \<bar>?tk x\<bar> < 2 ^ 53 \<and> \<bar>f * ?tk x\<bar> < 2 ^ 53 \<and>
                               \<bar>startTime x + f * ?tk x\<bar> < 2 ^ 53" for f
    proof
      fix x assume x: "x \<in> set ?mq"
      have sc: "?sc y = jsInt (startTime y + f * ?tk y)" if "y \<in> set ?mq" for y
        using b that by (intro score_exact[OF f]) auto
      have "\<forall>y \<in> set ?mq. ?sc y \<noteq> JsNaN" using sc by (simp add: jsInt_not_NaN)
      with least x have nl: "\<not> jsLess (?sc x) (?sc r)" by blast
      have "\<not> jsLess (jsInt (startTime x + f * ?tk x)) (jsInt (startTime r + f * ?tk r))"
        using nl unfolding sc[OF x] sc[OF mem] .
      moreover have "\<bar>startTime x + f * ?tk x\<bar> < 2 ^ 53" "\<bar>startTime r + f * ?tk r\<bar> < 2 ^ 53"
        using b x mem by auto
      ultimately show "startTime r + f * ?tk r \<le> startTime x + f * ?tk x"
        by (simp add: jsLess_jsInt)
    qed
    have other: "\<forall>g. g \<noteq> fam \<longrightarrow>
                   getQueueForPartition g (remove1 r q) = getQueueForPartition g q"
      using rf by (simp add: partition_remove1_other)
    have pq: "r\<lparr>queueOutTime := now\<rparr> \<in> set (fst (processQueue cfg lockout now q)) \<and>
              getQueueForPartition fam (snd (processQueue cfg lockout now q)) = remove1 r ?mq"
      if a: "fam \<in> set MODEL_FAMILIES \<and> lockout fam = 0"
    proof -
      obtain reqs q' where pf: "processFamilies cfg lockout now MODEL_FAMILIES q = (reqs, q')"
        by (cases "processFamilies cfg lockout now MODEL_FAMILIES q")
      from processFamilies_dequeues[OF distinct_MODEL_FAMILIES, of fam lockout cfg now q] a pf d
      have i: "Some (r\<lparr>queueOutTime := now\<rparr>) \<in> set reqs"
        and p: "getQueueForPartition fam q' = getQueueForPartition fam (remove1 r q)"
        by simp_all
      from i have "r\<lparr>queueOutTime := now\<rparr> \<in> set (map the (filter (\<lambda>r. r \<noteq> None) reqs))"
        by force
      with p pf show ?thesis by (simp add: processQueue_def partition_remove1_same)
    qed
    from d rq rf least exact other pq show ?thesis by blast
  qed
  have B: "getQueueForPartition fam (snd (processQueue cfg lockout now q)) = ?mq"
    if nz: "lockout fam \<noteq> 0"
  proof -
    obtain reqs q' where pf: "processFamilies cfg lockout now MODEL_FAMILIES q = (reqs, q')"
      by (cases "processFamilies cfg lockout now MODEL_FAMILIES q")
    from processFamilies_untouched[of fam MODEL_FAMILIES lockout cfg now q] nz pf
    show ?thesis by (simp add: processQueue_def)
  qed
  from A B show ?thesis unfolding Let_def by blast
qed


lemmas js_exact = jsAdd_ints jsMul_int jsAdd_int jsLess_jsInt jsInt_not_NaN


lemma roundToDouble_eval:
  assumes m: "m \<noteq> 0"
      and lo: "2 ^ b \<le> nat \<bar>m\<bar>" and hi: "nat \<bar>m\<bar> < 2 ^ Suc b"
      and t: "t = max (e + int (Suc b) - 53) (- 1074)"
      and n: "n = (if t \<le> e then m * 2 ^ nat (e - t) else roundHalfEven m (2 ^ nat (t - e)))"
      and k: "nat \<bar>n\<bar> < 2 ^ k" and fin: "t + int k \<le> 1024"
  shows "roundToDouble m e = JsFinite n t"
proof -
  have b: "bitLength (nat \<bar>m\<bar>) = Suc b" using lo hi by (rule bitLength_unique)
  have "bitLength (nat \<bar>n\<bar>) \<le> k" using k by (simp only: bitLength_le_iff)
  with fin have no: "\<not> 1024 < t + int (bitLength (nat \<bar>n\<bar>))" by linarith
  show ?thesis
    unfolding roundToDouble_def Let_def b t[symmetric] n[symmetric] using m no by simp
qed

lemma score_heavy:
  "jsAdd (JsFinite 1700000000000 0)
     (jsMul (JsFinite 1 (- 24)) (jsAdd (JsFinite 900 0) (JsFinite 100 0)))
     = JsFinite 6963200000000000 (- 12)"
proof -
  have a: "jsAdd (JsFinite 900 0) (JsFinite 100 0) = JsFinite 8796093022208000 (- 43)"
  proof -
    have "roundToDouble 1000 0 = JsFinite 8796093022208000 (- 43)"
      by (rule roundToDouble_eval[where b = 9 and k = 53]) simp_all
    then show ?thesis by (simp add: jsAdd_def)
  qed
  have b: "jsMul (JsFinite 1 (- 24)) (JsFinite 8796093022208000 (- 43))
             = JsFinite 8796093022208000 (- 67)"
  proof -
    have "roundToDouble 8796093022208000 (- 67) = JsFinite 8796093022208000 (- 67)"
      by (rule roundToDouble_eval[where b = 52 and k = 53]) simp_all
    then show ?thesis by (simp add: jsMul_def)
  qed
  have c: "jsAdd (JsFinite 1700000000000 0) (JsFinite 8796093022208000 (- 67))
             = JsFinite 6963200000000000 (- 12)"
  proof -
    have "roundToDouble (1700000000000 * 2 ^ 67 + 8796093022208000) (- 67)
            = JsFinite 6963200000000000 (- 12)"
      by (rule roundToDouble_eval[where b = 107 and k = 53])
         (simp_all add: roundHalfEven_def Let_def)
    then show ?thesis by (simp add: jsAdd_def Let_def)
  qed
  show ?thesis by (simp only: a b c)
qed


lemma score_light:
  "jsAdd (JsFinite 1700000000000 0)
     (jsMul (JsFinite 1 (- 24)) (jsAdd (JsFinite 10 0) (JsFinite 0 0)))
     = JsFinite 6963200000000000 (- 12)"
proof -
  have a: "jsAdd (JsFinite 10 0) (JsFinite 0 0) = JsFinite 5629499534213120 (- 49)"
  proof -
    have "roundToDouble 10 0 = JsFinite 5629499534213120 (- 49)"
      by (rule roundToDouble_eval[where b = 3 and k = 53]) simp_all
    then show ?thesis by (simp add: jsAdd_def)
  qed
  have b: "jsMul (JsFinite 1 (- 24)) (JsFinite 5629499534213120 (- 49))
             = JsFinite 5629499534213120 (- 73)"
  proof -
    have "roundToDouble 5629499534213120 (- 73) = JsFinite 5629499534213120 (- 73)"
      by (rule roundToDouble_eval[where b = 52 and k = 53]) simp_all
    then show ?thesis by (simp add: jsMul_def)
  qed
  have c: "jsAdd (JsFinite 1700000000000 0) (JsFinite 5629499534213120 (- 73))
             = JsFinite 6963200000000000 (- 12)"
  proof -
    have "roundToDouble (1700000000000 * 2 ^ 73 + 5629499534213120) (- 73)
            = JsFinite 6963200000000000 (- 12)"
      by (rule roundToDouble_eval[where b = 113 and k = 53])
         (simp_all add: roundHalfEven_def Let_def)
    then show ?thesis by (simp add: jsAdd_def Let_def)
  qed
  show ?thesis by (simp only: a b c)
qed

lemma dequeue_example_tiny:
  "dequeue tinyFactorQueueConfig 1700000005000 ''claude'' [requestLight, requestHeavy]
     = (Some (requestHeavy\<lparr>queueOutTime := 1700000005000\<rparr>), [requestLight])"
proof -
  have p: "getQueueForPartition ''claude'' [requestLight, requestHeavy]
             = [requestLight, requestHeavy]"
    by (simp add: getQueueForPartition_def requestLight_def requestHeavy_def requestA_def)
  have f: "startTime requestLight = 1700000000000" "promptTokens requestLight = Some 10"
    "outputTokens requestLight = None"
    "startTime requestHeavy = 1700000000000" "promptTokens requestHeavy = Some 900"
    "outputTokens requestHeavy = Some 100"
    "tokensPunishmentFactor tinyFactorQueueConfig = JsFinite 1 (- 24)"
    by (simp_all add: requestLight_def requestHeavy_def tinyFactorQueueConfig_def)
  have "reqId requestLight \<noteq> reqId requestHeavy"
    by (simp add: requestLight_def requestHeavy_def)
  then have ne: "requestLight \<noteq> requestHeavy" by auto
  have nl: "\<not> jsLess (JsFinite 6963200000000000 (- 12)) (JsFinite 6963200000000000 (- 12))"
    by (simp add: jsLess_def)
  show ?thesis
    unfolding dequeue_def Let_def p
    by (simp add: f score_light score_heavy nl ne)
qed


lemma dequeue_example_punishing:
  "dequeue punishingQueueConfig 5000 ''claude'' [requestA, requestC, requestB]
     = (Some (requestB\<lparr>queueOutTime := 5000\<rparr>), [requestA, requestC])"
  by (simp add: dequeue_def getQueueForPartition_def request_examples js_exact)

lemma sample_requests_distinct:
  "requestA \<noteq> requestB" "requestA \<noteq> requestC" "requestB \<noteq> requestC"
proof -
  have "reqId requestA \<noteq> reqId requestB" "reqId requestA \<noteq> reqId requestC"
    "reqId requestB \<noteq> reqId requestC"
    by (simp_all add: request_examples)
  then show "requestA \<noteq> requestB" "requestA \<noteq> requestC" "requestB \<noteq> requestC"
    by auto
qed

theorem dequeue_takes_least_score_of_partition_witness:
  "getQueueForPartition ''claude'' [requestA, requestC, requestB] \<noteq> [] \<and>
   dequeue punishingQueueConfig 5000 ''claude'' [requestA, requestC, requestB]
     = (Some (requestB\<lparr>queueOutTime := 5000\<rparr>), [requestA, requestC]) \<and>
   \<not> jsLess
       (jsAdd (JsFinite (startTime requestA) 0)
          (jsMul (tokensPunishmentFactor punishingQueueConfig)
             (jsAdd (JsFinite (case promptTokens requestA of Some n \<Rightarrow> n | None \<Rightarrow> 0) 0)
                    (JsFinite (case outputTokens requestA of Some n \<Rightarrow> n | None \<Rightarrow> 0) 0))))
       (jsAdd (JsFinite (startTime requestB) 0)
          (jsMul (tokensPunishmentFactor punishingQueueConfig)
             (jsAdd (JsFinite (case promptTokens requestB of Some n \<Rightarrow> n | None \<Rightarrow> 0) 0)
                    (JsFinite (case outputTokens requestB of Some n \<Rightarrow> n | None \<Rightarrow> 0) 0)))) \<and>
   startTime requestB +
     10 * ((case promptTokens requestB of Some n \<Rightarrow> n | None \<Rightarrow> 0) +
           (case outputTokens requestB of Some n \<Rightarrow> n | None \<Rightarrow> 0))
     \<le> startTime requestA +
         10 * ((case promptTokens requestA of Some n \<Rightarrow> n | None \<Rightarrow> 0) +
               (case outputTokens requestA of Some n \<Rightarrow> n | None \<Rightarrow> 0)) \<and>
   requestB\<lparr>queueOutTime := 5000\<rparr>
     \<in> set (fst (processQueue punishingQueueConfig (\<lambda>f. if f = ''gpt4o'' then 300 else 0) 5000
                     [requestA, requestC, requestB])) \<and>
   getQueueForPartition ''claude''
     (snd (processQueue punishingQueueConfig (\<lambda>f. if f = ''gpt4o'' then 300 else 0) 5000
             [requestA, requestC, requestB]))
     = remove1 requestB (getQueueForPartition ''claude'' [requestA, requestC, requestB]) \<and>
   getQueueForPartition ''gpt4o''
     (snd (processQueue punishingQueueConfig (\<lambda>f. if f = ''gpt4o'' then 300 else 0) 5000
             [requestA, requestC, requestB]))
     = getQueueForPartition ''gpt4o'' [requestA, requestC, requestB]"
proof -
  let ?q = "[requestA, requestC, requestB]"
  let ?lock = "\<lambda>f. if f = ''gpt4o'' then 300 else (0::int)"
  let ?sc = "\<lambda>x. jsAdd (JsFinite (startTime x) 0)
                   (jsMul (tokensPunishmentFactor punishingQueueConfig)
                      (jsAdd (JsFinite (case promptTokens x of Some n \<Rightarrow> n | None \<Rightarrow> 0) 0)
                             (JsFinite (case outputTokens x of Some n \<Rightarrow> n | None \<Rightarrow> 0) 0)))"
  let ?tk = "\<lambda>x. (case promptTokens x of Some n \<Rightarrow> n | None \<Rightarrow> 0) +
                  (case outputTokens x of Some n \<Rightarrow> n | None \<Rightarrow> (0::int))"
  have part: "getQueueForPartition ''claude'' ?q = [requestA, requestB]"
    by (simp add: getQueueForPartition_def request_examples)
  then have ne: "getQueueForPartition ''claude'' ?q \<noteq> []" by simp
  have mem: "''claude'' \<in> set MODEL_FAMILIES \<and> ?lock ''claude'' = 0"
    by (simp add: MODEL_FAMILIES_def)
  have l1: "?lock ''gpt4o'' \<noteq> 0" by simp
  have nn: "\<forall>x \<in> set (getQueueForPartition ''claude'' ?q). ?sc x \<noteq> JsNaN"
    unfolding part by (simp add: request_examples js_exact)
  have fac: "tokensPunishmentFactor punishingQueueConfig = JsFinite 10 0"
    by (simp add: request_examples)
  have bd: "\<forall>x \<in> set (getQueueForPartition ''claude'' ?q).
              \<bar>?tk x\<bar> < 2 ^ 53 \<and> \<bar>10 * ?tk x\<bar> < 2 ^ 53 \<and> \<bar>startTime x + 10 * ?tk x\<bar> < 2 ^ 53"
    unfolding part by (simp add: request_examples)
  have inA: "requestA \<in> set (getQueueForPartition ''claude'' ?q)" unfolding part by simp
  note t = dequeue_takes_least_score_of_partition
             [unfolded Let_def, of "''claude''" ?q punishingQueueConfig 5000 ?lock]
  note u = dequeue_takes_least_score_of_partition
             [unfolded Let_def, of "''gpt4o''" ?q punishingQueueConfig 5000 ?lock]
  from mp[OF conjunct1[OF t] ne] obtain r where
    d: "dequeue punishingQueueConfig 5000 ''claude'' ?q
          = (Some (r\<lparr>queueOutTime := 5000\<rparr>), remove1 r ?q)" and
    rq: "r \<in> set ?q" and
    least: "(\<forall>x \<in> set (getQueueForPartition ''claude'' ?q). ?sc x \<noteq> JsNaN) \<longrightarrow>
            (\<forall>x \<in> set (getQueueForPartition ''claude'' ?q). \<not> jsLess (?sc x) (?sc r))" and
    exact: "\<forall>f. tokensPunishmentFactor punishingQueueConfig = JsFinite f 0 \<and>
               (\<forall>x \<in> set (getQueueForPartition ''claude'' ?q).
                  \<bar>?tk x\<bar> < 2 ^ 53 \<and> \<bar>f * ?tk x\<bar> < 2 ^ 53 \<and>
                  \<bar>startTime x + f * ?tk x\<bar> < 2 ^ 53) \<longrightarrow>
               (\<forall>x \<in> set (getQueueForPartition ''claude'' ?q).
                  startTime r + f * ?tk r \<le> startTime x + f * ?tk x)" and
    pq: "''claude'' \<in> set MODEL_FAMILIES \<and> ?lock ''claude'' = 0 \<longrightarrow>
           r\<lparr>queueOutTime := 5000\<rparr>
             \<in> set (fst (processQueue punishingQueueConfig ?lock 5000 ?q)) \<and>
           getQueueForPartition ''claude'' (snd (processQueue punishingQueueConfig ?lock 5000 ?q))
             = remove1 r (getQueueForPartition ''claude'' ?q)"
    by (elim exE conjE)
  from d dequeue_example_punishing have "remove1 r ?q = [requestA, requestC]" by simp
  with rq have r: "r = requestB"
    using sample_requests_distinct by (auto split: if_splits)
  note c1 = bspec[OF mp[OF least nn] inA, unfolded r]
  note c2 = bspec[OF mp[OF spec[OF exact, of 10] conjI[OF fac bd]] inA, unfolded r]
  note c3 = mp[OF pq mem, unfolded r]
  note c4 = mp[OF conjunct2[OF u] l1]
  from ne dequeue_example_punishing c1 c2 conjunct1[OF c3] conjunct2[OF c3] c4
  show ?thesis by (intro conjI)
qed

text \<open>
  C6 as stated fails where the punishment is lost in rounding. Two requests joined the
  queue in the same millisecond, the first with 10 tokens and the second with 1000, and
  the factor is \<open>2 ^ -24\<close>: at a timestamp near \<open>1.7 * 10 ^ 12\<close> the spacing of
  binary64 numbers is \<open>2 ^ -12\<close>, both sums round to the timestamp, the comparison
  \<^verbatim>\<open><\<close> is false and the reducer keeps the second request, whose exact score is
  the greater one.
\<close>

theorem dequeue_rounding_counterexample:
  "getQueueForPartition ''claude'' [requestLight, requestHeavy] = [requestLight, requestHeavy] \<and>
   dequeue tinyFactorQueueConfig 1700000005000 ''claude'' [requestLight, requestHeavy]
     = (Some (requestHeavy\<lparr>queueOutTime := 1700000005000\<rparr>), [requestLight]) \<and>
   jsReal (tokensPunishmentFactor tinyFactorQueueConfig) = 1 / 2 ^ 24 \<and>
   real_of_int (startTime requestLight) +
     (1 / 2 ^ 24) *
       real_of_int ((case promptTokens requestLight of Some n \<Rightarrow> n | None \<Rightarrow> 0) +
                    (case outputTokens requestLight of Some n \<Rightarrow> n | None \<Rightarrow> 0))
     < real_of_int (startTime requestHeavy) +
         (1 / 2 ^ 24) *
           real_of_int ((case promptTokens requestHeavy of Some n \<Rightarrow> n | None \<Rightarrow> 0) +
                        (case outputTokens requestHeavy of Some n \<Rightarrow> n | None \<Rightarrow> 0))"
proof -
  have p: "getQueueForPartition ''claude'' [requestLight, requestHeavy]
             = [requestLight, requestHeavy]"
    by (simp add: getQueueForPartition_def requestLight_def requestHeavy_def requestA_def)
  have f: "jsReal (tokensPunishmentFactor tinyFactorQueueConfig) = 1 / 2 ^ 24"
    by (simp add: tinyFactorQueueConfig_def jsReal_def power_int_minus field_simps)
  have x: "real_of_int (startTime requestLight) +
     (1 / 2 ^ 24) *
       real_of_int ((case promptTokens requestLight of Some n \<Rightarrow> n | None \<Rightarrow> 0) +
                    (case outputTokens requestLight of Some n \<Rightarrow> n | None \<Rightarrow> 0))
     < real_of_int (startTime requestHeavy) +
         (1 / 2 ^ 24) *
           real_of_int ((case promptTokens requestHeavy of Some n \<Rightarrow> n | None \<Rightarrow> 0) +
                        (case outputTokens requestHeavy of Some n \<Rightarrow> n | None \<Rightarrow> 0))"
    by (simp add: requestLight_def requestHeavy_def)
  from p dequeue_example_tiny f x show ?thesis by (intro conjI)
qed


section \<open>The concurrency limit of the queue (C8)\<close>













lemma enqueue_example_second:
  "enqueue defaultQueueConfig 1 True requestB [requestA] = Inl TooManyRequestsError"
  by (simp add: enqueue_unfold sharesIdentifierWith_def getIdentifier_def request_examples)




section \<open>The wait-time estimator (C9)\<close>

lemma calculateWaitTime_fst:
  "fst (calculateWaitTime now q p e) =
     ((case historicalEmas e p of Some v \<Rightarrow> v | None \<Rightarrow> 0) +
      (case currentEmas e p of Some v \<Rightarrow> v | None \<Rightarrow> 0)) / 2"
  by (simp add: calculateWaitTime_def Let_def)

lemma calculateWaitTime_emas:
  "historicalEmas (snd (calculateWaitTime now q p e)) p =
     Some (ALPHA_HISTORICAL * recentAverageOf now p (waitTimes e) +
           (1 - ALPHA_HISTORICAL) * (case historicalEmas e p of Some v \<Rightarrow> v | None \<Rightarrow> 0))"
  "currentEmas (snd (calculateWaitTime now q p e)) p =
     Some (ALPHA_CURRENT *
             real_of_int (math_max0 (map (\<lambda>r. now - startTime r)
                                       (filter (\<lambda>r. modelFamily r = p) q))) +
           (1 - ALPHA_CURRENT) * (case currentEmas e p of Some v \<Rightarrow> v | None \<Rightarrow> 0))"
  "waitTimes (snd (calculateWaitTime now q p e)) = waitTimes e"
  by (simp_all add: calculateWaitTime_def Let_def)

lemma estimatorTick_fields:
  "historicalEmas (estimatorTick now q p e) = historicalEmas (snd (calculateWaitTime now q p e))"
  "currentEmas (estimatorTick now q p e) = currentEmas (snd (calculateWaitTime now q p e))"
  "waitTimes (estimatorTick now q p e) = waitTimes e"
  "getEstimatedWaitTime p (estimatorTick now q p e) = fst (calculateWaitTime now q p e)"
  by (simp_all add: estimatorTick_def getEstimatedWaitTime_def calculateWaitTime_def Let_def
        split: prod.splits)

text \<open>
  Claim C9, as the code has it. \<^verbatim>\<open>calculateWaitTime\<close> returns the average of the two
  moving averages as they were before this tick updated them. When the partition of the
  family is empty at a tick, the current average decays by the factor
  \<open>1 - ALPHA_CURRENT\<close>, and the estimate of the next tick is at most the estimate of this
  tick exactly when \<open>ALPHA_HISTORICAL * (recentAverage - historicalEma) \<le> ALPHA_CURRENT *
  currentEma\<close>, whatever the queue holds at the next tick.
\<close>

theorem estimate_step_after_drain:
  assumes drained: "getQueueForPartition p q1 = []"
  shows
    "(getEstimatedWaitTime p (estimatorTick now2 q2 p (estimatorTick now1 q1 p e))
        \<le> getEstimatedWaitTime p (estimatorTick now1 q1 p e)
      \<longleftrightarrow>
      ALPHA_HISTORICAL *
        (recentAverageOf now1 p (waitTimes e)
           - (case historicalEmas e p of Some v \<Rightarrow> v | None \<Rightarrow> 0))
        \<le> ALPHA_CURRENT * (case currentEmas e p of Some v \<Rightarrow> v | None \<Rightarrow> 0)) \<and>
     currentEmas (estimatorTick now1 q1 p e) p
       = Some ((1 - ALPHA_CURRENT) * (case currentEmas e p of Some v \<Rightarrow> v | None \<Rightarrow> 0)) \<and>
     getEstimatedWaitTime p (estimatorTick now1 q1 p e)
       = ((case historicalEmas e p of Some v \<Rightarrow> v | None \<Rightarrow> 0) +
          (case currentEmas e p of Some v \<Rightarrow> v | None \<Rightarrow> 0)) / 2"
proof -
  let ?h = "case historicalEmas e p of Some v \<Rightarrow> v | None \<Rightarrow> 0"
  let ?c = "case currentEmas e p of Some v \<Rightarrow> v | None \<Rightarrow> 0"
  let ?R = "recentAverageOf now1 p (waitTimes e)"
  have empty: "filter (\<lambda>r. modelFamily r = p) q1 = []"
    using drained by (simp add: getQueueForPartition_def)
  have c1: "currentEmas (estimatorTick now1 q1 p e) p = Some ((1 - ALPHA_CURRENT) * ?c)"
    by (simp add: estimatorTick_fields calculateWaitTime_emas empty math_max0_def)
  have h1: "historicalEmas (estimatorTick now1 q1 p e) p
              = Some (ALPHA_HISTORICAL * ?R + (1 - ALPHA_HISTORICAL) * ?h)"
    by (simp add: estimatorTick_fields calculateWaitTime_emas)
  have e1: "getEstimatedWaitTime p (estimatorTick now1 q1 p e) = (?h + ?c) / 2"
    by (simp add: estimatorTick_fields calculateWaitTime_fst)
  have e2: "getEstimatedWaitTime p (estimatorTick now2 q2 p (estimatorTick now1 q1 p e))
              = ((ALPHA_HISTORICAL * ?R + (1 - ALPHA_HISTORICAL) * ?h)
                 + (1 - ALPHA_CURRENT) * ?c) / 2"
    by (simp add: estimatorTick_fields(4) calculateWaitTime_fst h1 c1)
  have ar: "(((ALPHA_HISTORICAL * ?R + (1 - ALPHA_HISTORICAL) * ?h) + (1 - ALPHA_CURRENT) * ?c) / 2
           \<le> (?h + ?c) / 2)
        \<longleftrightarrow> ALPHA_HISTORICAL * (?R - ?h) \<le> ALPHA_CURRENT * ?c"
  proof -
    have half: "\<And>A B :: real. (A / 2 \<le> B / 2) = (A \<le> B)" by simp
    show ?thesis unfolding half by (simp add: algebra_simps)
  qed
  have m: "getEstimatedWaitTime p (estimatorTick now2 q2 p (estimatorTick now1 q1 p e))
        \<le> getEstimatedWaitTime p (estimatorTick now1 q1 p e)
      \<longleftrightarrow> ALPHA_HISTORICAL * (?R - ?h) \<le> ALPHA_CURRENT * ?c"
    unfolding e1 e2 by (rule ar)
  from m c1 e1 show ?thesis by (intro conjI)
qed

theorem estimate_step_after_drain_witness:
  "getQueueForPartition ''claude'' [requestC] = [] \<and>
   getEstimatedWaitTime ''claude''
     (estimatorTick 6000 [requestC] ''claude''
        (estimatorTick 3000 [requestC] ''claude'' estimatorAfterLoad))
     \<le> getEstimatedWaitTime ''claude'' (estimatorTick 3000 [requestC] ''claude'' estimatorAfterLoad) \<and>
   getEstimatedWaitTime ''claude'' (estimatorTick 3000 [requestC] ''claude'' estimatorAfterLoad)
     = 2500"
proof -
  have h: "getQueueForPartition ''claude'' [requestC] = []"
    by (simp add: getQueueForPartition_def requestC_def requestA_def)
  have c: "ALPHA_HISTORICAL *
        (recentAverageOf 3000 ''claude'' (waitTimes estimatorAfterLoad)
           - (case historicalEmas estimatorAfterLoad ''claude'' of Some v \<Rightarrow> v | None \<Rightarrow> 0))
        \<le> ALPHA_CURRENT *
            (case currentEmas estimatorAfterLoad ''claude'' of Some v \<Rightarrow> v | None \<Rightarrow> 0)"
    by (simp add: estimatorAfterLoad_def recentAverageOf_def ALPHA_HISTORICAL_def
          ALPHA_CURRENT_def)
  note t = estimate_step_after_drain[OF h, of 6000 "[requestC]" 3000 estimatorAfterLoad]
  have v: "((case historicalEmas estimatorAfterLoad ''claude'' of Some v \<Rightarrow> v | None \<Rightarrow> 0) +
          (case currentEmas estimatorAfterLoad ''claude'' of Some v \<Rightarrow> v | None \<Rightarrow> 0)) / 2
          = (2500 :: real)"
    by (simp add: estimatorAfterLoad_def)
  from h iffD2[OF conjunct1[OF t] c] trans[OF conjunct2[OF conjunct2[OF t]] v]
  show ?thesis by (intro conjI)
qed

text \<open>
  The estimate of a drained family can rise. One request of the family waited 1000 ms
  and left the queue before the first tick; the queue stays empty and no sample is added.
  The sample is recent at every tick, so the historical average climbs towards 1000 and
  the estimates of three successive ticks are 0, 100 and 180.
\<close>

theorem estimate_rises_after_drain_counterexample:
  "getQueueForPartition ''claude'' [] = [] \<and>
   getEstimatedWaitTime ''claude'' (estimatorTick 3000 [] ''claude'' estimatorWithOneSample) = 0 \<and>
   getEstimatedWaitTime ''claude''
     (estimatorTick 6000 [] ''claude'' (estimatorTick 3000 [] ''claude'' estimatorWithOneSample))
     = 100 \<and>
   getEstimatedWaitTime ''claude''
     (estimatorTick 9000 [] ''claude''
        (estimatorTick 6000 [] ''claude''
           (estimatorTick 3000 [] ''claude'' estimatorWithOneSample)))
     = 180"
  by (simp add: getQueueForPartition_def estimatorTick_def getEstimatedWaitTime_def
        calculateWaitTime_def recentAverageOf_def math_max0_def estimatorWithOneSample_def
        startedEstimator_def ALPHA_HISTORICAL_def ALPHA_CURRENT_def Let_def)


section \<open>Reverting the mutations of a request (C4)\<close>

lemma sameObservableState_refl: "sameObservableState r r"
  by (simp add: sameObservableState_def)

lemma revertMutation_cong:
  assumes "sameObservableState r1 r2"
  shows "sameObservableState (revertMutation r1 mu) (revertMutation r2 mu)"
  using assms
  by (cases mu) (auto simp add: sameObservableState_def req_path_def split: option.splits)

lemma foldl_revertMutation_cong:
  assumes "sameObservableState r1 r2"
  shows "sameObservableState (foldl revertMutation r1 ms) (foldl revertMutation r2 ms)"
  using assms
proof (induction ms arbitrary: r1 r2)
  case Nil
  then show ?case by simp
next
  case (Cons mu ms)
  from Cons.prems have "sameObservableState (revertMutation r1 mu) (revertMutation r2 mu)"
    by (rule revertMutation_cong)
  then show ?case by (simp add: Cons.IH)
qed

lemma req_get_plain:
  assumes "toLowerCase name \<noteq> ''referer''" and "toLowerCase name \<noteq> ''referrer''"
  shows "req_get r name = headers r (toLowerCase name)"
  using assms by (simp add: req_get_def Let_def)

lemma req_path_idem: "takeWhile (\<lambda>c. c \<noteq> CHR ''?'') (takeWhile (\<lambda>c. c \<noteq> CHR ''?'') u)
                        = takeWhile (\<lambda>c. c \<noteq> CHR ''?'') u"
  by (simp add: takeWhile_idem)

lemma applyCall_undone:
  assumes "\<not> namesReferrer c"
  shows "\<exists>mu. mutations (applyCall m c) = mutations m @ [mu] \<and>
              sameObservableState (revertMutation (req (applyCall m c)) mu) (req m)"
proof (cases c)
  case (SetHeader name v)
  with assms have n: "toLowerCase name \<noteq> ''referer''" "toLowerCase name \<noteq> ''referrer''"
    by (simp_all add: namesReferrer_def)
  show ?thesis
    unfolding SetHeader
    by (cases "headers (req m) (toLowerCase name)")
       (simp_all add: setHeader_def Let_def req_get_plain[OF n] sameObservableState_def
          req_path_def fun_upd_idem)
next
  case (RemoveHeader name)
  with assms have n: "toLowerCase name \<noteq> ''referer''" "toLowerCase name \<noteq> ''referrer''"
    by (simp_all add: namesReferrer_def)
  show ?thesis
    unfolding RemoveHeader
    by (cases "headers (req m) (toLowerCase name)")
       (simp_all add: removeHeader_def Let_def req_get_plain[OF n] sameObservableState_def
          req_path_def fun_upd_idem)
next
  case (SetBody b)
  show ?thesis unfolding SetBody
    by (simp add: setBody_def Let_def sameObservableState_def req_path_def)
next
  case (SetKey k)
  show ?thesis unfolding SetKey
    by (simp add: setKey_def Let_def sameObservableState_def req_path_def)
next
  case (SetPath p)
  show ?thesis unfolding SetPath
    by (simp add: setPath_def Let_def sameObservableState_def req_path_def)
next
  case (SetSignedRequest sr)
  show ?thesis unfolding SetSignedRequest
    by (simp add: setSignedRequest_def Let_def sameObservableState_def req_path_def)
qed

lemma sameObservableState_trans:
  "sameObservableState a b \<Longrightarrow> sameObservableState b c \<Longrightarrow> sameObservableState a c"
  by (simp add: sameObservableState_def)

lemma revert_applyCalls_state:
  assumes "\<forall>c \<in> set calls. \<not> namesReferrer c"
  shows "sameObservableState
           (foldl revertMutation (req (applyCalls m calls)) (rev (mutations (applyCalls m calls))))
           (foldl revertMutation (req m) (rev (mutations m)))"
  using assms
proof (induction calls rule: rev_induct)
  case Nil
  show ?case by (simp add: applyCalls_def sameObservableState_refl)
next
  case (snoc c calls)
  let ?m1 = "applyCalls m calls"
  have step: "applyCalls m (calls @ [c]) = applyCall ?m1 c"
    by (simp add: applyCalls_def)
  from snoc.prems have nc: "\<not> namesReferrer c" by simp
  from applyCall_undone[OF nc, of ?m1] obtain mu where
    mu: "mutations (applyCall ?m1 c) = mutations ?m1 @ [mu]"
    and un: "sameObservableState (revertMutation (req (applyCall ?m1 c)) mu) (req ?m1)"
    by blast
  have "foldl revertMutation (req (applyCall ?m1 c)) (rev (mutations (applyCall ?m1 c)))
          = foldl revertMutation (revertMutation (req (applyCall ?m1 c)) mu) (rev (mutations ?m1))"
    by (simp add: mu)
  moreover have "sameObservableState
      (foldl revertMutation (revertMutation (req (applyCall ?m1 c)) mu) (rev (mutations ?m1)))
      (foldl revertMutation (req ?m1) (rev (mutations ?m1)))"
    using un by (rule foldl_revertMutation_cong)
  moreover have "sameObservableState
      (foldl revertMutation (req ?m1) (rev (mutations ?m1)))
      (foldl revertMutation (req m) (rev (mutations m)))"
    using snoc.prems by (intro snoc.IH) simp
  ultimately show ?case
    unfolding step by (simp add: sameObservableState_trans)
qed

lemma applyCall_key:
  "reqKey (req (applyCall m c)) = (case c of SetKey k \<Rightarrow> Some k | _ \<Rightarrow> reqKey (req m))"
  by (cases c)
     (simp_all add: setHeader_def removeHeader_def setBody_def setKey_def setPath_def
        setSignedRequest_def Let_def)

lemma revertMutation_key: "reqKey (revertMutation r mu) = reqKey r"
  by (cases mu) (simp_all split: option.splits)

lemma foldl_revertMutation_key: "reqKey (foldl revertMutation r ms) = reqKey r"
  by (induction ms arbitrary: r) (simp_all add: revertMutation_key)

text \<open>
  When no call names \<^verbatim>\<open>Referer\<close> or \<^verbatim>\<open>Referrer\<close>, \<^verbatim>\<open>revert\<close> restores the
  headers, the body, the path and the signed request of the request, leaves the key as the
  calls set it, and empties the list of mutations.
\<close>

lemma revert_law_without_referrer:
  assumes "\<forall>c \<in> set calls. \<not> namesReferrer c"
  shows "sameObservableState (req (revert (applyCalls (newProxyReqManager r) calls))) r"
    and "mutations (revert (applyCalls (newProxyReqManager r) calls)) = []"
    and "reqKey (req (revert (applyCalls (newProxyReqManager r) calls)))
           = reqKey (req (applyCalls (newProxyReqManager r) calls))"
proof -
  from revert_applyCalls_state[OF assms, of "newProxyReqManager r"]
  show "sameObservableState (req (revert (applyCalls (newProxyReqManager r) calls))) r"
    by (simp add: revert_def newProxyReqManager_def)
  show "mutations (revert (applyCalls (newProxyReqManager r) calls)) = []"
    by (simp add: revert_def)
  show "reqKey (req (revert (applyCalls (newProxyReqManager r) calls)))
           = reqKey (req (applyCalls (newProxyReqManager r) calls))"
    by (simp add: revert_def foldl_revertMutation_key)
qed

text \<open>
  Claim C4 at a request that arrived with both a \<^verbatim>\<open>Referrer\<close> and a
  \<^verbatim>\<open>Referer\<close> header. \<^verbatim>\<open>removeHeader("referer")\<close> records what
  \<^verbatim>\<open>req.get("referer")\<close> returns, which is the value of \<^verbatim>\<open>Referrer\<close>, and
  \<^verbatim>\<open>revert\<close> writes that value under \<^verbatim>\<open>referer\<close>: the header comes back with
  another value than it had, so the headers are not restored, though the list of mutations
  is empty.
\<close>

theorem revert_referer_alias:
  "headers requestWithReferrers ''referer'' = Some ''https://b.example/'' \<and>
   headers (req (revert (applyCalls (newProxyReqManager requestWithReferrers)
                                    [RemoveHeader ''referer''])))
           ''referer'' = Some ''https://a.example/'' \<and>
   \<not> sameObservableState
        (req (revert (applyCalls (newProxyReqManager requestWithReferrers)
                                 [RemoveHeader ''referer''])))
        requestWithReferrers \<and>
   mutations (revert (applyCalls (newProxyReqManager requestWithReferrers)
                                 [RemoveHeader ''referer''])) = []"
proof -
  have a: "headers requestWithReferrers ''referer'' = Some ''https://b.example/''"
    by (simp add: requestWithReferrers_def)
  have b: "headers (req (revert (applyCalls (newProxyReqManager requestWithReferrers)
                                    [RemoveHeader ''referer''])))
             ''referer'' = Some ''https://a.example/''"
    by (simp add: requestWithReferrers_def revert_def applyCalls_def newProxyReqManager_def
          removeHeader_def req_get_def toLowerCase_def toLowerChar_def Let_def)
  have c: "\<not> sameObservableState
        (req (revert (applyCalls (newProxyReqManager requestWithReferrers)
                                 [RemoveHeader ''referer''])))
        requestWithReferrers"
  proof
    assume "sameObservableState
        (req (revert (applyCalls (newProxyReqManager requestWithReferrers)
                                 [RemoveHeader ''referer''])))
        requestWithReferrers"
    then have "headers (req (revert (applyCalls (newProxyReqManager requestWithReferrers)
                                    [RemoveHeader ''referer''])))
                 ''referer'' = headers requestWithReferrers ''referer''"
      by (simp add: sameObservableState_def)
    with a b show False by simp
  qed
  have d: "mutations (revert (applyCalls (newProxyReqManager requestWithReferrers)
                                 [RemoveHeader ''referer''])) = []"
    by (simp add: revert_def)
  from a b c d show ?thesis by (intro conjI)
qed


section \<open>Rate limits from upstream (C5)\<close>

lemma reenqueueAndThrow_fst:
  "fst (reenqueueAndThrow cfg u jd r payload st) =
     (case reenqueueRequest cfg u jd r (psQueue st) of
        Inl e \<Rightarrow> Some (QueueError e) | Inr q' \<Rightarrow> Some RetryableError)"
  by (simp add: reenqueueAndThrow_def split: sum.splits)

lemma reenqueueAndThrow_not_None: "fst (reenqueueAndThrow cfg u jd r payload st) \<noteq> None"
  by (simp add: reenqueueAndThrow_fst split: sum.splits)

lemma pass_thrown:
  assumes "fst res \<noteq> None"
  shows "(case res of (None, payload', st') \<Rightarrow> (Some (HttpError 429), payload', st')
                    | (Some e, payload', st') \<Rightarrow> (Some e, payload', st')) = res"
  using assms by (cases res) (auto split: option.splits)

lemma pass_returned:
  "fst (case (None, p, s) of (None, payload', st') \<Rightarrow> (Some (HttpError 429), payload', st')
                    | (Some e, payload', st') \<Rightarrow> (Some e, payload', st')) = Some (HttpError 429)"
  by simp

lemma handler_retryable:
  assumes "isRetryableRateLimit svc payload"
  shows "handleUpstreamErrors429 cfg u jd svc r payload st =
           reenqueueAndThrow cfg u jd r payload (markRateLimited r st)"
proof (cases svc)
  case SvcOpenAI
  with assms have t: "errorType payload = Some ''requests'' \<or> errorType payload = Some ''tokens''"
    and d: "\<not> (case errorMessage payload of
                Some msg \<Rightarrow> str_includes msg ''on requests per day'' | None \<Rightarrow> False)"
    by (simp_all add: isRetryableRateLimit_def)
  from t have h: "handleOpenAIRateLimitError cfg u jd r payload st =
           reenqueueAndThrow cfg u jd r payload (markRateLimited r st)"
    using d by (auto simp add: handleOpenAIRateLimitError_def Let_def)
  show ?thesis
    unfolding SvcOpenAI handleUpstreamErrors429_def Let_def
    by (simp add: h pass_thrown[OF reenqueueAndThrow_not_None])
next
  case SvcAnthropic
  with assms have h: "handleAnthropicRateLimitError cfg u jd r payload st =
           reenqueueAndThrow cfg u jd r payload (markRateLimited r st)"
    by (simp add: isRetryableRateLimit_def handleAnthropicRateLimitError_def)
  show ?thesis
    unfolding SvcAnthropic handleUpstreamErrors429_def Let_def
    by (simp add: h pass_thrown[OF reenqueueAndThrow_not_None])
next
  case SvcGoogleAI
  with assms have h: "handleGoogleAIRateLimitError cfg u jd r payload st =
           reenqueueAndThrow cfg u jd r payload (markRateLimited r st)"
    by (simp add: isRetryableRateLimit_def handleGoogleAIRateLimitError_def)
  show ?thesis
    unfolding SvcGoogleAI handleUpstreamErrors429_def Let_def
    by (simp add: h pass_thrown[OF reenqueueAndThrow_not_None])
next
  case SvcMistralAI
  with assms have h: "handleAzureRateLimitError cfg u jd r payload st =
           reenqueueAndThrow cfg u jd r payload (markRateLimited r st)"
    by (simp add: isRetryableRateLimit_def handleAzureRateLimitError_def)
  show ?thesis
    unfolding SvcMistralAI handleUpstreamErrors429_def Let_def
    by (simp add: h pass_thrown[OF reenqueueAndThrow_not_None])
next
  case SvcAws
  with assms have h: "handleAwsRateLimitError cfg u jd r payload st =
           reenqueueAndThrow cfg u jd r payload (markRateLimited r st)"
    by (simp add: isRetryableRateLimit_def handleAwsRateLimitError_def)
  show ?thesis
    unfolding SvcAws handleUpstreamErrors429_def Let_def
    by (simp add: h pass_thrown[OF reenqueueAndThrow_not_None])
next
  case SvcGcp
  with assms have h: "handleGcpRateLimitError cfg u jd r payload st =
           reenqueueAndThrow cfg u jd r payload (markRateLimited r st)"
    by (simp add: isRetryableRateLimit_def handleGcpRateLimitError_def)
  show ?thesis
    unfolding SvcGcp handleUpstreamErrors429_def Let_def
    by (simp add: h pass_thrown[OF reenqueueAndThrow_not_None])
next
  case SvcAzure
  with assms have h: "handleAzureRateLimitError cfg u jd r payload st =
           reenqueueAndThrow cfg u jd r payload (markRateLimited r st)"
    by (simp add: isRetryableRateLimit_def handleAzureRateLimitError_def)
  show ?thesis
    unfolding SvcAzure handleUpstreamErrors429_def Let_def
    by (simp add: h pass_thrown[OF reenqueueAndThrow_not_None])
qed


lemma handler_not_retryable:
  assumes "\<not> isRetryableRateLimit svc payload"
  shows "fst (handleUpstreamErrors429 cfg u jd svc r payload st) = Some (HttpError 429)"
proof (cases svc)
  case SvcOpenAI
  from assms have "\<exists>p s. handleOpenAIRateLimitError cfg u jd r payload st = (None, p, s)"
    unfolding SvcOpenAI
    by (auto simp add: isRetryableRateLimit_def handleOpenAIRateLimitError_def Let_def)
  then show ?thesis
    unfolding SvcOpenAI handleUpstreamErrors429_def Let_def by auto
next
  case SvcAnthropic
  from assms have "\<exists>p s. handleAnthropicRateLimitError cfg u jd r payload st = (None, p, s)"
    unfolding SvcAnthropic
    by (simp add: isRetryableRateLimit_def handleAnthropicRateLimitError_def)
  then show ?thesis
    unfolding SvcAnthropic handleUpstreamErrors429_def Let_def by auto
next
  case SvcGoogleAI
  from assms have "\<exists>p s. handleGoogleAIRateLimitError cfg u jd r payload st = (None, p, s)"
    unfolding SvcGoogleAI
    by (simp add: isRetryableRateLimit_def handleGoogleAIRateLimitError_def)
  then show ?thesis
    unfolding SvcGoogleAI handleUpstreamErrors429_def Let_def by auto
next
  case SvcMistralAI
  from assms have "\<exists>p s. handleAzureRateLimitError cfg u jd r payload st = (None, p, s)"
    unfolding SvcMistralAI
    by (simp add: isRetryableRateLimit_def handleAzureRateLimitError_def)
  then show ?thesis
    unfolding SvcMistralAI handleUpstreamErrors429_def Let_def by auto
next
  case SvcAws
  from assms have "\<exists>p s. handleAwsRateLimitError cfg u jd r payload st = (None, p, s)"
    unfolding SvcAws
    by (simp add: isRetryableRateLimit_def handleAwsRateLimitError_def)
  then show ?thesis
    unfolding SvcAws handleUpstreamErrors429_def Let_def by auto
next
  case SvcGcp
  from assms have "\<exists>p s. handleGcpRateLimitError cfg u jd r payload st = (None, p, s)"
    unfolding SvcGcp
    by (simp add: isRetryableRateLimit_def handleGcpRateLimitError_def)
  then show ?thesis
    unfolding SvcGcp handleUpstreamErrors429_def Let_def by auto
next
  case SvcAzure
  from assms have "\<exists>p s. handleAzureRateLimitError cfg u jd r payload st = (None, p, s)"
    unfolding SvcAzure
    by (simp add: isRetryableRateLimit_def handleAzureRateLimitError_def)
  then show ?thesis
    unfolding SvcAzure handleUpstreamErrors429_def Let_def by auto
qed

text \<open>
  Claim C5, as the code has it. On a 429 whose payload the service's handler takes as a
  rate limit that can be retried, the handler first calls \<^verbatim>\<open>markRateLimited\<close> on the
  key of the request and then calls \<^verbatim>\<open>reenqueueRequest\<close>. When \<^verbatim>\<open>enqueue\<close>
  accepts the request, the queue is the one \<^verbatim>\<open>enqueue\<close> leaves and the error of the
  retryable kind is thrown; when \<^verbatim>\<open>enqueue\<close> throws, its error is what the handler
  throws and the queue is as it was. The 429 branch throws the retryable kind for no
  other payload.
\<close>

theorem rate_limited_429_marks_key_and_reenqueues:
  "(isRetryableRateLimit svc payload \<longrightarrow>
      handleUpstreamErrors429 cfg uniqueIps joinDrained svc r payload st =
        (case reenqueueRequest cfg uniqueIps joinDrained r (psQueue st) of
           Inl e \<Rightarrow> (Some (QueueError e), payload, markRateLimited r st)
         | Inr q' \<Rightarrow> (Some RetryableError, payload, (markRateLimited r st)\<lparr>psQueue := q'\<rparr>))) \<and>
   (fst (handleUpstreamErrors429 cfg uniqueIps joinDrained svc r payload st) = Some RetryableError
      \<longrightarrow> isRetryableRateLimit svc payload)"
proof (intro conjI impI)
  assume a: "isRetryableRateLimit svc payload"
  show "handleUpstreamErrors429 cfg uniqueIps joinDrained svc r payload st =
        (case reenqueueRequest cfg uniqueIps joinDrained r (psQueue st) of
           Inl e \<Rightarrow> (Some (QueueError e), payload, markRateLimited r st)
         | Inr q' \<Rightarrow> (Some RetryableError, payload, (markRateLimited r st)\<lparr>psQueue := q'\<rparr>))"
    unfolding handler_retryable[OF a]
    by (simp add: reenqueueAndThrow_def markRateLimited_def split: sum.splits)
next
  assume b: "fst (handleUpstreamErrors429 cfg uniqueIps joinDrained svc r payload st)
               = Some RetryableError"
  show "isRetryableRateLimit svc payload"
  proof (rule ccontr)
    assume "\<not> isRetryableRateLimit svc payload"
    from handler_not_retryable[OF this, of cfg uniqueIps joinDrained r st] b
    show False by simp
  qed
qed

lemma reenqueue_example_accepted:
  "reenqueueRequest defaultQueueConfig 1 True requestInFlight [requestC]
     = Inr [requestC, requestInFlight\<lparr>retryCount := 1, queueOutTime := 0\<rparr>]"
  by (simp add: reenqueueRequest_def enqueue_unfold sharesIdentifierWith_def getIdentifier_def
        getProxyLoad_def bodyStream_def requestInFlight_def request_examples Let_def)

lemma reenqueue_example_rejected:
  "reenqueueRequest defaultQueueConfig 1 True requestInFlight [requestB]
     = Inl TooManyRequestsError"
  by (simp add: reenqueueRequest_def enqueue_unfold sharesIdentifierWith_def getIdentifier_def
        getProxyLoad_def bodyStream_def requestInFlight_def request_examples Let_def)

lemma rateLimitPayload_retryable: "isRetryableRateLimit SvcAnthropic rateLimitPayload"
  by (simp add: isRetryableRateLimit_def rateLimitPayload_def)

theorem rate_limited_429_marks_key_and_reenqueues_witness:
  "isRetryableRateLimit SvcAnthropic rateLimitPayload \<and>
   handleUpstreamErrors429 defaultQueueConfig 1 True SvcAnthropic requestInFlight rateLimitPayload
       \<lparr>psQueue = [requestC], psKeyPoolCalls = []\<rparr>
     = (Some RetryableError, rateLimitPayload,
        \<lparr>psQueue = [requestC, requestInFlight\<lparr>retryCount := 1, queueOutTime := 0\<rparr>],
         psKeyPoolCalls = [MarkRateLimited (Some limitedKeyA)]\<rparr>) \<and>
   fst (handleUpstreamErrors429 defaultQueueConfig 1 True SvcAnthropic requestInFlight
          rateLimitPayload \<lparr>psQueue = [requestC], psKeyPoolCalls = []\<rparr>) = Some RetryableError"
proof -
  note t = rate_limited_429_marks_key_and_reenqueues[of SvcAnthropic rateLimitPayload
             defaultQueueConfig 1 True requestInFlight
             "\<lparr>psQueue = [requestC], psKeyPoolCalls = []\<rparr>"]
  note e = mp[OF conjunct1[OF t] rateLimitPayload_retryable]
  have k: "reqKey requestInFlight = Some limitedKeyA"
    by (simp add: requestInFlight_def)
  have v: "handleUpstreamErrors429 defaultQueueConfig 1 True SvcAnthropic requestInFlight
             rateLimitPayload \<lparr>psQueue = [requestC], psKeyPoolCalls = []\<rparr>
     = (Some RetryableError, rateLimitPayload,
        \<lparr>psQueue = [requestC, requestInFlight\<lparr>retryCount := 1, queueOutTime := 0\<rparr>],
         psKeyPoolCalls = [MarkRateLimited (Some limitedKeyA)]\<rparr>)"
    unfolding e
    by (simp add: reenqueue_example_accepted[unfolded One_nat_def] markRateLimited_def k)
  have f: "fst (handleUpstreamErrors429 defaultQueueConfig 1 True SvcAnthropic requestInFlight
          rateLimitPayload \<lparr>psQueue = [requestC], psKeyPoolCalls = []\<rparr>) = Some RetryableError"
    unfolding v by simp
  from rateLimitPayload_retryable v f show ?thesis by (intro conjI)
qed

lemma reenqueue_example_streaming:
  "reenqueueRequest defaultQueueConfig 1 True requestStreamingInFlight [requestC]
     = Inr [requestC, requestStreamingInFlight\<lparr>retryCount := 1, queueOutTime := 0\<rparr>]"
  by (simp add: reenqueueRequest_def enqueue_unfold sharesIdentifierWith_def getIdentifier_def
        getProxyLoad_def bodyStream_def requestStreamingInFlight_def requestInFlight_def
        request_examples Let_def)

text \<open>
  C5 as stated fails where the user of the request has another request in the queue by
  the time the 429 arrives: the key is marked, \<^verbatim>\<open>enqueue\<close> throws
  \<^verbatim>\<open>TooManyRequestsError\<close>, the request is not in the queue and the retryable kind is
  not thrown. And \<^verbatim>\<open>handleStreamedResponse\<close>, for a streaming request whose upstream
  status is 200 and whose stream fails with an error of the retryable kind, marks the key
  and puts the request back in the queue itself, without the classifier.
\<close>

theorem reenqueue_rejected_counterexample:
  "isRetryableRateLimit SvcAnthropic rateLimitPayload \<and>
   handleUpstreamErrors429 defaultQueueConfig 1 True SvcAnthropic requestInFlight rateLimitPayload
       \<lparr>psQueue = [requestB], psKeyPoolCalls = []\<rparr>
     = (Some (QueueError TooManyRequestsError), rateLimitPayload,
        \<lparr>psQueue = [requestB], psKeyPoolCalls = [MarkRateLimited (Some limitedKeyA)]\<rparr>) \<and>
   isStreaming requestStreamingInFlight \<and>
   handleStreamedResponse defaultQueueConfig 1 True 200 (StreamFailed RetryableStreamError) False
       requestStreamingInFlight \<lparr>psQueue = [requestC], psKeyPoolCalls = []\<rparr>
     = (StreamThrew (StreamRethrown RetryableStreamError), requestStreamingInFlight,
        \<lparr>psQueue = [requestC, requestStreamingInFlight\<lparr>retryCount := 1, queueOutTime := 0\<rparr>],
         psKeyPoolCalls = [MarkRateLimited (Some limitedKeyA)]\<rparr>)"
proof -
  have k: "reqKey requestInFlight = Some limitedKeyA"
    by (simp add: requestInFlight_def)
  have ks: "reqKey requestStreamingInFlight = Some limitedKeyA"
    "isStreaming requestStreamingInFlight" "headersSent requestStreamingInFlight"
    by (simp_all add: requestStreamingInFlight_def requestInFlight_def)
  have a: "handleUpstreamErrors429 defaultQueueConfig 1 True SvcAnthropic requestInFlight
             rateLimitPayload \<lparr>psQueue = [requestB], psKeyPoolCalls = []\<rparr>
     = (Some (QueueError TooManyRequestsError), rateLimitPayload,
        \<lparr>psQueue = [requestB], psKeyPoolCalls = [MarkRateLimited (Some limitedKeyA)]\<rparr>)"
    unfolding handler_retryable[OF rateLimitPayload_retryable] reenqueueAndThrow_def
      markRateLimited_def
    by (simp add: reenqueue_example_rejected[unfolded One_nat_def] k)
  have b: "handleStreamedResponse defaultQueueConfig 1 True 200 (StreamFailed RetryableStreamError)
       False requestStreamingInFlight \<lparr>psQueue = [requestC], psKeyPoolCalls = []\<rparr>
     = (StreamThrew (StreamRethrown RetryableStreamError), requestStreamingInFlight,
        \<lparr>psQueue = [requestC, requestStreamingInFlight\<lparr>retryCount := 1, queueOutTime := 0\<rparr>],
         psKeyPoolCalls = [MarkRateLimited (Some limitedKeyA)]\<rparr>)"
    by (simp add: handleStreamedResponse_def Let_def markRateLimited_def
          reenqueue_example_streaming[unfolded One_nat_def] ks)
  from rateLimitPayload_retryable a ks(2) b show ?thesis by (intro conjI)
qed


section \<open>The API-format transform (C1)\<close>



text \<open>
  The exported preprocessor on the Mistral chat request of the AWS route: the outbound
  format becomes Mistral text and the body becomes a text completion whose prompt is the
  rendered conversation, which parses under the schema of Mistral text. The pass-through
  copy leaves the same request as it was.
\<close>

lemma transformOutboundPayload_mistral_example:
  "transformOutboundPayload mistralValidators (mistralTransformers render) (\<lambda>r. True)
       (\<lambda>r. False) awsMistralChatRequest
     = Inr (awsMistralChatRequest
              \<lparr>outboundApi := MistralText,
               body := Json \<lparr>model = Some ''mistral.mistral-large-2407-v1:0'',
                             messages = None,
                             prompt = Some (render [\<lparr>role = ''user'', content = ''hi'',
                                                     msgPrefix = None\<rparr>,
                                                   \<lparr>role = ''assistant'', content = ''Sure'',
                                                     msgPrefix = Some True\<rparr>]),
                             stream = False\<rparr>\<rparr>)"
  by (simp add: transformOutboundPayload_def applyMistralPromptFixes_def fixMistralPrompt_def
        fixMistralStep_def transformMistralChatToText_def mistralValidators_def
        mistralTransformers_def MistralAIV1ChatCompletionsSchema_def MistralMessagesSchema_def
        awsMistralChatRequest_def requestA_def Let_def)

lemma transformOutboundPayload_mistral_conforms:
  "MistralAIV1TextCompletionsSchema
     (Json \<lparr>model = Some ''mistral.mistral-large-2407-v1:0'', messages = None,
            prompt = Some p, stream = False\<rparr>)"
  by (simp add: MistralAIV1TextCompletionsSchema_def)

lemma transformOutboundPayloadPassthrough_mistral_example:
  "transformOutboundPayloadPassthrough awsMistralChatRequest = awsMistralChatRequest"
  "outboundApi (transformOutboundPayloadPassthrough awsMistralChatRequest) = MistralAI"
  "\<not> MistralAIV1TextCompletionsSchema
       (body (transformOutboundPayloadPassthrough awsMistralChatRequest))"
  by (simp_all add: transformOutboundPayloadPassthrough_def awsMistralChatRequest_def
        MistralAIV1TextCompletionsSchema_def)


end
